theory Spec2Isabelle
  imports Complex_Main
begin

section \<open>Tensors, errors and effects\<close>

text \<open>
  The two models of the repository (\<^verbatim>\<open>ACDC/model/unet.py\<close>, a 2D U-Net, and
  \<^verbatim>\<open>LA/code/networks/vnet.py\<close>, a 3D V-Net) wire layers of the tensor framework
  together. The numeric content of a tensor is floating point and is not modelled; a
  tensor is its shape together with a symbolic expression that records how it was
  computed (which layers, which random draws, which halves of which batch). Shapes are
  batched: \<open>[N, C, H, W]\<close> for the 2D model and \<open>[N, C, D, H, W]\<close> for the 3D
  model. The framework also accepts an input without the batch dimension; the layers
  of this model raise on it, so every theorem below that speaks about a successful run
  fixes the rank of the input.

  Python exceptions are values of \<open>error\<close>. A computation that draws random numbers
  or calls a sub-module runs on a \<open>world\<close>: the counter of random draws made so far
  and the list of encoder and decoder calls made so far (most recent last).
\<close>

datatype error =
  AssertionError | ValueError | RuntimeError | KeyError | IndexError | AttributeError

datatype drop_kind = Elementwise | Channelwise | Alpha | FeatureAlpha

text \<open>
  A layer with weights is identified by the attribute path of the module that owns it
  and its position in that module's \<^verbatim>\<open>nn.Sequential\<close>.
\<close>

type_synonym pname = "string \<times> nat"

datatype layer =
    Conv nat pname nat nat nat nat nat
  | ConvTranspose nat pname nat nat nat nat
  | BatchNorm nat pname nat
  | GroupNorm pname nat nat
  | InstanceNorm nat pname nat
  | ReLU
  | LeakyReLU
  | MaxPool nat nat
  | Upsample nat nat
  | DropoutLayer drop_kind real

text \<open>
  \<open>Conv nd name cin cout k stride pad\<close> is \<^verbatim>\<open>nn.Conv{nd}d(cin, cout, k, stride=stride,
  padding=pad)\<close>; the name identifies its weights. \<open>ConvTranspose nd name cin cout k
  stride\<close>, \<open>BatchNorm nd name c\<close>, \<open>GroupNorm name groups c\<close>,
  \<open>InstanceNorm nd name c\<close>, \<open>MaxPool nd k\<close>, \<open>Upsample nd scale\<close> and
  \<open>DropoutLayer kind p\<close> follow the same pattern.
\<close>

datatype expr =
    Data nat
  | Apply layer expr
  | Dropped drop_kind real nat expr
  | RandMask nat real
  | OneMinus expr
  | Mul expr expr
  | Add expr expr
  | Cat0 expr expr
  | Cat1 expr expr
  | Chunk nat expr

record tensor =
  shape :: "nat list"
  val :: expr

datatype call = EncoderCall | DecoderCall

record world =
  rng :: nat
  calls :: "call list"

type_synonym 'a exec = "world \<Rightarrow> (error + 'a) \<times> world"

definition ret :: "'a \<Rightarrow> 'a exec" where
  "ret a w = (Inr a, w)"

definition raise :: "error \<Rightarrow> 'a exec" where
  "raise e w = (Inl e, w)"

definition lift :: "error + 'a \<Rightarrow> 'a exec" where
  "lift r w = (r, w)"

definition andThen :: "'a exec \<Rightarrow> ('a \<Rightarrow> 'b exec) \<Rightarrow> 'b exec" where
  "andThen m f w = (case m w of (Inl e, w') \<Rightarrow> (Inl e, w') | (Inr a, w') \<Rightarrow> f a w')"

definition fresh :: "nat exec" where
  "fresh w = (Inr (rng w), w\<lparr>rng := Suc (rng w)\<rparr>)"

definition record_call :: "call \<Rightarrow> unit exec" where
  "record_call c w = (Inr (), w\<lparr>calls := calls w @ [c]\<rparr>)"

text \<open>Construction of modules has no effect on the world: it either fails or returns.\<close>

definition bindE :: "error + 'a \<Rightarrow> ('a \<Rightarrow> error + 'b) \<Rightarrow> error + 'b" where
  "bindE r f = (case r of Inl e \<Rightarrow> Inl e | Inr a \<Rightarrow> f a)"

text \<open>Python's \<^verbatim>\<open>xs[i]\<close> on a list, for a non-negative index.\<close>

definition index :: "'a list \<Rightarrow> nat \<Rightarrow> error + 'a" where
  "index xs i = (if i < length xs then Inr (xs ! i) else Inl IndexError)"

section \<open>The framework's layers, at the level of shapes\<close>

text \<open>
  Output size of a convolution or pooling window along one spatial dimension:
  \<open>(d + 2 * pad - k) div stride + 1\<close>, and an error when the padded input is smaller
  than the kernel.
\<close>

definition conv_out :: "nat \<Rightarrow> nat \<Rightarrow> nat \<Rightarrow> nat \<Rightarrow> nat option" where
  "conv_out k stride pad d =
     (if d + 2 * pad < k then None else Some ((d + 2 * pad - k) div stride + 1))"

fun those_dims :: "nat option list \<Rightarrow> nat list option" where
  "those_dims [] = Some []"
| "those_dims (None # ds) = None"
| "those_dims (Some d # ds) = (case those_dims ds of None \<Rightarrow> None | Some r \<Rightarrow> Some (d # r))"

fun layer_shape :: "bool \<Rightarrow> layer \<Rightarrow> nat list \<Rightarrow> error + nat list" where
  "layer_shape training (Conv nd name cin cout k stride pad) (n # c # sp) =
     (if length sp \<noteq> nd \<or> c \<noteq> cin then Inl RuntimeError
      else case those_dims (map (conv_out k stride pad) sp) of
             None \<Rightarrow> Inl RuntimeError
           | Some sp' \<Rightarrow> Inr (n # cout # sp'))"
| "layer_shape training (ConvTranspose nd name cin cout k stride) (n # c # sp) =
     (if length sp \<noteq> nd \<or> c \<noteq> cin \<or> \<not> list_all (\<lambda>d. 1 \<le> d) sp then Inl RuntimeError
      else Inr (n # cout # map (\<lambda>d. (d - 1) * stride + k) sp))"
| "layer_shape training (BatchNorm nd name ch) (n # c # sp) =
     (if length sp \<noteq> nd then Inl ValueError
      else if training \<and> n * prod_list sp = 1 then Inl ValueError
      else if c \<noteq> ch then Inl RuntimeError
      else Inr (n # c # sp))"
| "layer_shape training (GroupNorm name groups ch) (n # c # sp) =
     (if (n * c) div groups * prod_list sp = 1 then Inl ValueError
      else if c \<noteq> ch \<or> c mod groups \<noteq> 0 then Inl RuntimeError
      else Inr (n # c # sp))"
| "layer_shape training (InstanceNorm nd name ch) (n # c # sp) =
     (if length sp \<noteq> nd then Inl ValueError
      else if prod_list sp = 1 then Inl ValueError
      else Inr (n # c # sp))"
| "layer_shape training (MaxPool nd k) (n # c # sp) =
     (if length sp \<noteq> nd then Inl RuntimeError
      else case those_dims (map (conv_out k k 0) sp) of
             None \<Rightarrow> Inl RuntimeError
           | Some sp' \<Rightarrow> Inr (n # c # sp'))"
| "layer_shape training (Upsample nd scale) (n # c # sp) =
     (if length sp \<noteq> nd \<or> \<not> list_all (\<lambda>d. 1 \<le> d) sp then Inl RuntimeError
      else Inr (n # c # map (\<lambda>d. d * scale) sp))"
| "layer_shape training ReLU s = Inr s"
| "layer_shape training LeakyReLU s = Inr s"
| "layer_shape training (DropoutLayer kind p) s = Inr s"
| "layer_shape training l s = Inl RuntimeError"

text \<open>
  Applying a layer. A dropout layer in training mode draws a fresh random mask; in
  evaluation mode it returns its input. Every other layer is deterministic.
\<close>

definition apply_layer :: "bool \<Rightarrow> layer \<Rightarrow> tensor \<Rightarrow> tensor exec" where
  "apply_layer training l x =
     (case l of
        DropoutLayer kind p \<Rightarrow>
          (if training
           then andThen fresh (\<lambda>seed. ret \<lparr>shape = shape x, val = Dropped kind p seed (val x)\<rparr>)
           else ret x)
      | _ \<Rightarrow>
          (case layer_shape training l (shape x) of
             Inl e \<Rightarrow> raise e
           | Inr s \<Rightarrow> ret \<lparr>shape = s, val = Apply l (val x)\<rparr>))"

text \<open>\<^verbatim>\<open>nn.Sequential\<close>: the layers in order.\<close>

fun Sequential :: "bool \<Rightarrow> layer list \<Rightarrow> tensor \<Rightarrow> tensor exec" where
  "Sequential training [] x = ret x"
| "Sequential training (l # ls) x = andThen (apply_layer training l x) (Sequential training ls)"

text \<open>The constructor of a dropout layer checks its probability.\<close>

definition mk_dropout :: "drop_kind \<Rightarrow> real \<Rightarrow> error + layer" where
  "mk_dropout kind p = (if p < 0 \<or> 1 < p then Inl ValueError else Inr (DropoutLayer kind p))"

text \<open>The constructor of a group normalisation checks that the groups divide the channels.\<close>

definition mk_groupnorm :: "pname \<Rightarrow> nat \<Rightarrow> nat \<Rightarrow> error + layer" where
  "mk_groupnorm name groups ch =
     (if ch mod groups \<noteq> 0 then Inl ValueError else Inr (GroupNorm name groups ch))"

section \<open>The framework's tensor operations\<close>

text \<open>
  \<^verbatim>\<open>x.chunk(2)\<close> splits along the batch dimension into pieces of
  \<open>(n + 1) div 2\<close> elements; the last piece holds what is left, and there is no
  second piece when nothing is left. An empty batch gives two empty pieces.
\<close>

definition chunk2 :: "tensor \<Rightarrow> error + tensor list" where
  "chunk2 x =
     (case shape x of
        [] \<Rightarrow> Inl RuntimeError
      | n # rest \<Rightarrow>
          (let size = (n + 1) div 2;
               piece = (\<lambda>i m. \<lparr>shape = m # rest, val = Chunk i (val x)\<rparr>)
           in if n = 0 then Inr [piece 0 0, piece 1 0]
              else if n - size = 0 then Inr [piece 0 size]
              else Inr [piece 0 size, piece 1 (n - size)]))"

text \<open>\<^verbatim>\<open>torch.cat((a, b), dim=0)\<close> and \<^verbatim>\<open>torch.cat([a, b], dim=1)\<close>.\<close>

definition cat0 :: "tensor \<Rightarrow> tensor \<Rightarrow> error + tensor" where
  "cat0 a b =
     (case (shape a, shape b) of
        (n # ra, m # rb) \<Rightarrow>
          (if ra = rb then Inr \<lparr>shape = (n + m) # ra, val = Cat0 (val a) (val b)\<rparr>
           else Inl RuntimeError)
      | _ \<Rightarrow> Inl RuntimeError)"

definition cat1 :: "tensor \<Rightarrow> tensor \<Rightarrow> error + tensor" where
  "cat1 a b =
     (case (shape a, shape b) of
        (n # c # ra, m # d # rb) \<Rightarrow>
          (if n = m \<and> ra = rb then Inr \<lparr>shape = n # (c + d) # ra, val = Cat1 (val a) (val b)\<rparr>
           else Inl RuntimeError)
      | _ \<Rightarrow> Inl RuntimeError)"

text \<open>
  Broadcasting of two shapes, read from the last dimension: two sizes are compatible
  when they are equal or one of them is 1.
\<close>

fun broadcast_rev :: "nat list \<Rightarrow> nat list \<Rightarrow> nat list option" where
  "broadcast_rev [] ys = Some ys"
| "broadcast_rev xs [] = Some xs"
| "broadcast_rev (x # xs) (y # ys) =
     (case broadcast_rev xs ys of
        None \<Rightarrow> None
      | Some r \<Rightarrow>
          (if x = y then Some (x # r)
           else if x = 1 then Some (y # r)
           else if y = 1 then Some (x # r)
           else None))"

definition broadcast :: "nat list \<Rightarrow> nat list \<Rightarrow> nat list option" where
  "broadcast xs ys = map_option rev (broadcast_rev (rev xs) (rev ys))"

definition mul :: "tensor \<Rightarrow> tensor \<Rightarrow> error + tensor" where
  "mul a b =
     (case broadcast (shape a) (shape b) of
        None \<Rightarrow> Inl RuntimeError
      | Some s \<Rightarrow> Inr \<lparr>shape = s, val = Mul (val a) (val b)\<rparr>)"

definition add :: "tensor \<Rightarrow> tensor \<Rightarrow> error + tensor" where
  "add a b =
     (case broadcast (shape a) (shape b) of
        None \<Rightarrow> Inl RuntimeError
      | Some s \<Rightarrow> Inr \<lparr>shape = s, val = Add (val a) (val b)\<rparr>)"

definition one_minus :: "tensor \<Rightarrow> tensor" where
  "one_minus m = \<lparr>shape = shape m, val = OneMinus (val m)\<rparr>"

text \<open>\<^verbatim>\<open>(torch.rand_like(f) < p).float()\<close>: a fresh random 0/1 mask shaped like \<open>f\<close>.\<close>

definition rand_mask :: "tensor \<Rightarrow> real \<Rightarrow> tensor exec" where
  "rand_mask f p = andThen fresh (\<lambda>seed. ret \<lparr>shape = shape f, val = RandMask seed p\<rparr>)"

text \<open>What \<open>forward\<close> returns: one tensor, or a tuple of tensors.\<close>

datatype result = Single tensor | Tuple "tensor list"

text \<open>A \<^verbatim>\<open>for\<close> loop that appends one result per element.\<close>

fun mapM :: "('a \<Rightarrow> 'b exec) \<Rightarrow> 'a list \<Rightarrow> 'b list exec" where
  "mapM f [] = ret []"
| "mapM f (x # xs) = andThen (f x) (\<lambda>y. andThen (mapM f xs) (\<lambda>ys. ret (y # ys)))"

section \<open>The split and the complementary masks of the "strong" mode\<close>

text \<open>
  Both models run the same two loops in the "strong" mode
  (\<^verbatim>\<open>unet.py\<close> lines 200-223, \<^verbatim>\<open>vnet.py\<close> lines 321-338).
  The first unpacks \<^verbatim>\<open>f1, f2 = feats.chunk(2)\<close> for every feature map; unpacking
  anything but two pieces raises \<^verbatim>\<open>ValueError\<close>.
\<close>

fun split_halves :: "tensor list \<Rightarrow> (tensor list \<times> tensor list) exec" where
  "split_halves [] = ret ([], [])"
| "split_halves (feats # rest) =
     andThen (lift (chunk2 feats)) (\<lambda>pieces.
       case pieces of
         [f1, f2] \<Rightarrow>
           andThen (split_halves rest) (\<lambda>(features1, features2).
             ret (f1 # features1, f2 # features2))
       | _ \<Rightarrow> raise ValueError)"

text \<open>
  The second loop runs over \<^verbatim>\<open>zip(features1, features2)\<close>: one random mask per
  level, shaped like \<open>f1\<close>; \<open>weak_f = f1 * mask\<close>, \<open>strong_f = f2 * (1 - mask)\<close>,
  \<open>complete_f = weak_f + strong_f\<close>.
\<close>

fun perturb ::
  "real \<Rightarrow> tensor list \<Rightarrow> tensor list \<Rightarrow> (tensor list \<times> tensor list \<times> tensor list) exec" where
  "perturb p_keep (f1 # rest1) (f2 # rest2) =
     andThen (rand_mask f1 p_keep) (\<lambda>mask.
     andThen (lift (mul f1 mask)) (\<lambda>weak_f.
     andThen (lift (mul f2 (one_minus mask))) (\<lambda>strong_f.
     andThen (lift (add weak_f strong_f)) (\<lambda>complete_f.
     andThen (perturb p_keep rest1 rest2) (\<lambda>(weak_features, strong_features, complete_features).
       ret (weak_f # weak_features, strong_f # strong_features,
            complete_f # complete_features))))))"
| "perturb p_keep fs1 fs2 = ret ([], [], [])"

section \<open>The perturbation module\<close>

text \<open>
  \<^verbatim>\<open>PertDropout\<close> keeps its two dropout layers in a plain Python list, so the
  training flag of the enclosing model does not reach them: they stay in training mode.
\<close>

record pert_dropout =
  pert_p :: real
  dropouts :: "layer list"
  len :: nat

definition unet_PertDropout :: "real \<Rightarrow> error + pert_dropout" where
  "unet_PertDropout p =
     bindE (mk_dropout Channelwise (p * 0.5)) (\<lambda>weak.
     bindE (mk_dropout Channelwise (p * 1.5)) (\<lambda>strong.
       Inr \<lparr>pert_p = p, dropouts = [weak, strong], len = length [weak, strong]\<rparr>))"

definition PertDropout_len :: "pert_dropout \<Rightarrow> nat" where
  "PertDropout_len self = len self"

definition PertDropout_forward :: "pert_dropout \<Rightarrow> tensor list \<Rightarrow> tensor list list exec" where
  "PertDropout_forward self x =
     mapM (\<lambda>pert_dropout. mapM (\<lambda>feat. apply_layer True pert_dropout feat) x) (dropouts self)"

section \<open>The 2D U-Net (\<^verbatim>\<open>ACDC/model/unet.py\<close>)\<close>

definition unet_ConvBlock :: "string \<Rightarrow> nat \<Rightarrow> nat \<Rightarrow> real \<Rightarrow> error + layer list" where
  "unet_ConvBlock name in_channels out_channels dropout_p =
     bindE (mk_dropout Elementwise dropout_p) (\<lambda>drop.
       Inr [Conv 2 (name, 0) in_channels out_channels 3 1 1,
            BatchNorm 2 (name, 1) out_channels,
            LeakyReLU,
            drop,
            Conv 2 (name, 4) out_channels out_channels 3 1 1,
            BatchNorm 2 (name, 5) out_channels,
            LeakyReLU])"

definition DownBlock :: "string \<Rightarrow> nat \<Rightarrow> nat \<Rightarrow> real \<Rightarrow> error + layer list" where
  "DownBlock name in_channels out_channels dropout_p =
     bindE (unet_ConvBlock (name @ ''.1'') in_channels out_channels dropout_p) (\<lambda>conv.
       Inr (MaxPool 2 2 # conv))"

record up_block =
  ub_bilinear :: bool
  ub_conv1x1 :: "layer option"
  ub_up :: layer
  ub_conv :: "layer list"

definition UpBlock ::
  "string \<Rightarrow> nat \<Rightarrow> nat \<Rightarrow> nat \<Rightarrow> real \<Rightarrow> bool \<Rightarrow> error + up_block" where
  "UpBlock name in_channels1 in_channels2 out_channels dropout_p bilinear =
     bindE (unet_ConvBlock (name @ ''.conv'') (in_channels2 * 2) out_channels dropout_p) (\<lambda>conv.
       Inr (if bilinear
            then \<lparr>ub_bilinear = True,
                  ub_conv1x1 = Some (Conv 2 (name @ ''.conv1x1'', 0) in_channels1 in_channels2 1 1 0),
                  ub_up = Upsample 2 2,
                  ub_conv = conv\<rparr>
            else \<lparr>ub_bilinear = False,
                  ub_conv1x1 = None,
                  ub_up = ConvTranspose 2 (name @ ''.up'', 0) in_channels1 in_channels2 2 2,
                  ub_conv = conv\<rparr>))"

definition UpBlock_forward :: "bool \<Rightarrow> up_block \<Rightarrow> tensor \<Rightarrow> tensor \<Rightarrow> tensor exec" where
  "UpBlock_forward training self x1 x2 =
     andThen (if ub_bilinear self
              then (case ub_conv1x1 self of
                      None \<Rightarrow> raise AttributeError
                    | Some conv1x1 \<Rightarrow> apply_layer training conv1x1 x1)
              else ret x1) (\<lambda>x1.
     andThen (apply_layer training (ub_up self) x1) (\<lambda>x1.
     andThen (lift (cat1 x2 x1)) (\<lambda>x.
       Sequential training (ub_conv self) x)))"

text \<open>The hyperparameter dictionary that \<^verbatim>\<open>UNet.__init__\<close> builds, with all its keys.\<close>

record params =
  in_chns :: nat
  feature_chns :: "nat list"
  dropout :: "real list"
  class_num :: nat
  bilinear :: bool
  acti_func :: string

record encoder =
  enc_params :: params
  in_conv :: "layer list"
  down1 :: "layer list"
  down2 :: "layer list"
  down3 :: "layer list"
  down4 :: "layer list"

text \<open>
  After the assertion the channel list has five entries, so \<open>ft_chns ! i\<close> for
  \<open>i < 5\<close> is in range; the dropout list is not checked and is read with \<open>index\<close>.
\<close>

definition Encoder :: "params \<Rightarrow> error + encoder" where
  "Encoder ps =
     (let ft_chns = feature_chns ps in
      if length ft_chns \<noteq> 5 then Inl AssertionError
      else
        bindE (index (dropout ps) 0) (\<lambda>p0.
        bindE (unet_ConvBlock ''encoder.in_conv'' (in_chns ps) (ft_chns ! 0) p0) (\<lambda>c0.
        bindE (index (dropout ps) 1) (\<lambda>p1.
        bindE (DownBlock ''encoder.down1'' (ft_chns ! 0) (ft_chns ! 1) p1) (\<lambda>d1.
        bindE (index (dropout ps) 2) (\<lambda>p2.
        bindE (DownBlock ''encoder.down2'' (ft_chns ! 1) (ft_chns ! 2) p2) (\<lambda>d2.
        bindE (index (dropout ps) 3) (\<lambda>p3.
        bindE (DownBlock ''encoder.down3'' (ft_chns ! 2) (ft_chns ! 3) p3) (\<lambda>d3.
        bindE (index (dropout ps) 4) (\<lambda>p4.
        bindE (DownBlock ''encoder.down4'' (ft_chns ! 3) (ft_chns ! 4) p4) (\<lambda>d4.
          Inr \<lparr>enc_params = ps, in_conv = c0, down1 = d1, down2 = d2, down3 = d3,
               down4 = d4\<rparr>)))))))))))"

definition Encoder_forward :: "bool \<Rightarrow> encoder \<Rightarrow> tensor \<Rightarrow> tensor list exec" where
  "Encoder_forward training self x =
     andThen (record_call EncoderCall) (\<lambda>_.
     andThen (Sequential training (in_conv self) x) (\<lambda>x0.
     andThen (Sequential training (down1 self) x0) (\<lambda>x1.
     andThen (Sequential training (down2 self) x1) (\<lambda>x2.
     andThen (Sequential training (down3 self) x2) (\<lambda>x3.
     andThen (Sequential training (down4 self) x3) (\<lambda>x4.
       ret [x0, x1, x2, x3, x4]))))))"

record decoder =
  dec_params :: params
  up1 :: up_block
  up2 :: up_block
  up3 :: up_block
  up4 :: up_block
  out_conv :: layer

text \<open>
  \<^verbatim>\<open>Decoder.__init__\<close> does not pass \<^verbatim>\<open>bilinear\<close> to \<^verbatim>\<open>UpBlock\<close>, so every
  up block is built with the default \<^verbatim>\<open>bilinear=True\<close>.
\<close>

definition Decoder :: "params \<Rightarrow> error + decoder" where
  "Decoder ps =
     (let ft_chns = feature_chns ps in
      if length ft_chns \<noteq> 5 then Inl AssertionError
      else
        bindE (UpBlock ''decoder.up1'' (ft_chns ! 4) (ft_chns ! 3) (ft_chns ! 3) 0 True) (\<lambda>u1.
        bindE (UpBlock ''decoder.up2'' (ft_chns ! 3) (ft_chns ! 2) (ft_chns ! 2) 0 True) (\<lambda>u2.
        bindE (UpBlock ''decoder.up3'' (ft_chns ! 2) (ft_chns ! 1) (ft_chns ! 1) 0 True) (\<lambda>u3.
        bindE (UpBlock ''decoder.up4'' (ft_chns ! 1) (ft_chns ! 0) (ft_chns ! 0) 0 True) (\<lambda>u4.
          Inr \<lparr>dec_params = ps, up1 = u1, up2 = u2, up3 = u3, up4 = u4,
               out_conv = Conv 2 (''decoder.out_conv'', 0) (ft_chns ! 0) (class_num ps) 3 1 1\<rparr>)))))"

definition Decoder_forward :: "bool \<Rightarrow> decoder \<Rightarrow> tensor list \<Rightarrow> tensor exec" where
  "Decoder_forward training self feature =
     andThen (record_call DecoderCall) (\<lambda>_.
     andThen (lift (index feature 0)) (\<lambda>x0.
     andThen (lift (index feature 1)) (\<lambda>x1.
     andThen (lift (index feature 2)) (\<lambda>x2.
     andThen (lift (index feature 3)) (\<lambda>x3.
     andThen (lift (index feature 4)) (\<lambda>x4.
     andThen (UpBlock_forward training (up1 self) x4 x3) (\<lambda>x.
     andThen (UpBlock_forward training (up2 self) x x2) (\<lambda>x.
     andThen (UpBlock_forward training (up3 self) x x1) (\<lambda>x.
     andThen (UpBlock_forward training (up4 self) x x0) (\<lambda>x.
       apply_layer training (out_conv self) x))))))))))"

record unet =
  unet_encoder :: encoder
  unet_decoder :: decoder
  unet_pert :: pert_dropout
  unet_training :: bool

text \<open>A freshly constructed module is in training mode.\<close>

definition UNet :: "nat \<Rightarrow> nat \<Rightarrow> error + unet" where
  "UNet in_chns' class_num' =
     (let ps = \<lparr>in_chns = in_chns', feature_chns = [16, 32, 64, 128, 256],
                dropout = [0.05, 0.1, 0.2, 0.3, 0.5], class_num = class_num',
                bilinear = False, acti_func = ''relu''\<rparr>
      in bindE (Encoder ps) (\<lambda>enc.
         bindE (Decoder ps) (\<lambda>dec.
         bindE (unet_PertDropout 0.5) (\<lambda>pert.
           Inr \<lparr>unet_encoder = enc, unet_decoder = dec, unet_pert = pert,
                unet_training = True\<rparr>))))"

text \<open>
  The body of the "normal" branch of \<^verbatim>\<open>UNet.forward\<close> (lines 193-195). It builds a
  new \<^verbatim>\<open>nn.Dropout2d(0.5)\<close> for every feature map, which is in training mode
  whatever the model's flag is.
\<close>

definition UNet_forward_normal :: "unet \<Rightarrow> tensor list \<Rightarrow> result exec" where
  "UNet_forward_normal self feature =
     andThen (mapM (\<lambda>feat.
                andThen (apply_layer True (DropoutLayer Channelwise 0.5) feat) (\<lambda>dropped.
                  lift (cat0 feat dropped))) feature) (\<lambda>combined.
     andThen (Decoder_forward (unet_training self) (unet_decoder self) combined) (\<lambda>outs.
     andThen (lift (chunk2 outs)) (\<lambda>pieces.
       ret (Tuple pieces))))"

text \<open>The body of the "strong" branch of \<^verbatim>\<open>UNet.forward\<close> (lines 198-233).\<close>

definition UNet_forward_strong :: "unet \<Rightarrow> tensor list \<Rightarrow> result exec" where
  "UNet_forward_strong self feature =
     andThen (split_halves feature) (\<lambda>(features1, features2).
     andThen (perturb 0.7 features1 features2)
       (\<lambda>(weak_features, strong_features, complete_features).
     andThen (Decoder_forward (unet_training self) (unet_decoder self) features1)
       (\<lambda>pred_u_s1_clean.
     andThen (Decoder_forward (unet_training self) (unet_decoder self) features2)
       (\<lambda>pred_u_s2_clean.
     andThen (Decoder_forward (unet_training self) (unet_decoder self) weak_features)
       (\<lambda>pred_u_s1_weak.
     andThen (Decoder_forward (unet_training self) (unet_decoder self) strong_features)
       (\<lambda>pred_u_s2_strong.
     andThen (Decoder_forward (unet_training self) (unet_decoder self) complete_features)
       (\<lambda>pred_complete.
       ret (Tuple [pred_u_s1_clean, pred_u_s2_clean, pred_u_s1_weak, pred_u_s2_strong,
                   pred_complete]))))))))"

text \<open>
  \<^verbatim>\<open>UNet.forward\<close>. Its parameters \<^verbatim>\<open>need_ema\<close>, \<^verbatim>\<open>both\<close>,
  \<^verbatim>\<open>drop_rate\<close> and \<^verbatim>\<open>global_conf\<close> are never read and are left out. With
  \<^verbatim>\<open>need_fp\<close> set and an \<^verbatim>\<open>input_type\<close> that is neither "normal" nor
  "strong", control falls through to the plain decoding at the end.
\<close>

definition UNet_forward :: "unet \<Rightarrow> tensor \<Rightarrow> bool \<Rightarrow> string \<Rightarrow> result exec" where
  "UNet_forward self x need_fp input_type =
     andThen (Encoder_forward (unet_training self) (unet_encoder self) x) (\<lambda>feature.
       if need_fp \<and> input_type = ''normal'' then UNet_forward_normal self feature
       else if need_fp \<and> input_type = ''strong'' then UNet_forward_strong self feature
       else
         andThen (Decoder_forward (unet_training self) (unet_decoder self) feature) (\<lambda>output.
           ret (Single output)))"

section \<open>The 3D V-Net (\<^verbatim>\<open>LA/code/networks/vnet.py\<close>)\<close>

text \<open>
  \<^verbatim>\<open>ConvBlock.__init__\<close>: the loop over \<^verbatim>\<open>range(n_stages)\<close> appends a
  convolution, the normalisation chosen by the \<^verbatim>\<open>if\<close>/\<^verbatim>\<open>elif\<close> chain (whose last
  branch is \<^verbatim>\<open>assert False\<close>), and a ReLU. The accumulator is the list \<^verbatim>\<open>ops\<close>.
\<close>

fun ConvBlock_loop ::
  "string \<Rightarrow> nat list \<Rightarrow> nat \<Rightarrow> nat \<Rightarrow> string \<Rightarrow> layer list \<Rightarrow> error + layer list" where
  "ConvBlock_loop name [] n_filters_in n_filters_out normalization ops = Inr ops"
| "ConvBlock_loop name (i # rest) n_filters_in n_filters_out normalization ops =
     (let input_channel = (if i = 0 then n_filters_in else n_filters_out);
          ops = ops @ [Conv 3 (name, length ops) input_channel n_filters_out 3 1 1]
      in bindE
           (if normalization = ''batchnorm''
              then Inr (ops @ [BatchNorm 3 (name, length ops) n_filters_out])
            else if normalization = ''groupnorm''
              then bindE (mk_groupnorm (name, length ops) 16 n_filters_out) (\<lambda>g. Inr (ops @ [g]))
            else if normalization = ''instancenorm''
              then Inr (ops @ [InstanceNorm 3 (name, length ops) n_filters_out])
            else if normalization \<noteq> ''none''
              then Inl AssertionError
            else Inr ops)
           (\<lambda>ops. ConvBlock_loop name rest n_filters_in n_filters_out normalization
                     (ops @ [ReLU])))"

definition vnet_ConvBlock :: "string \<Rightarrow> nat \<Rightarrow> nat \<Rightarrow> nat \<Rightarrow> string \<Rightarrow> error + layer list" where
  "vnet_ConvBlock name n_stages n_filters_in n_filters_out normalization =
     ConvBlock_loop name [0..<n_stages] n_filters_in n_filters_out normalization []"

definition DownsamplingConvBlock ::
  "string \<Rightarrow> nat \<Rightarrow> nat \<Rightarrow> nat \<Rightarrow> string \<Rightarrow> error + layer list" where
  "DownsamplingConvBlock name n_filters_in n_filters_out stride normalization =
     (let conv = Conv 3 (name, 0) n_filters_in n_filters_out stride stride 0 in
      bindE
        (if normalization \<noteq> ''none'' then
           (if normalization = ''batchnorm'' then Inr [conv, BatchNorm 3 (name, 1) n_filters_out]
            else if normalization = ''groupnorm''
              then bindE (mk_groupnorm (name, 1) 16 n_filters_out) (\<lambda>g. Inr [conv, g])
            else if normalization = ''instancenorm''
              then Inr [conv, InstanceNorm 3 (name, 1) n_filters_out]
            else Inl AssertionError)
         else Inr [conv])
        (\<lambda>ops. Inr (ops @ [ReLU])))"

definition UpsamplingDeconvBlock ::
  "string \<Rightarrow> nat \<Rightarrow> nat \<Rightarrow> nat \<Rightarrow> string \<Rightarrow> error + layer list" where
  "UpsamplingDeconvBlock name n_filters_in n_filters_out stride normalization =
     (let deconv = ConvTranspose 3 (name, 0) n_filters_in n_filters_out stride stride in
      bindE
        (if normalization \<noteq> ''none'' then
           (if normalization = ''batchnorm'' then Inr [deconv, BatchNorm 3 (name, 1) n_filters_out]
            else if normalization = ''groupnorm''
              then bindE (mk_groupnorm (name, 1) 16 n_filters_out) (\<lambda>g. Inr [deconv, g])
            else if normalization = ''instancenorm''
              then Inr [deconv, InstanceNorm 3 (name, 1) n_filters_out]
            else Inl AssertionError)
         else Inr [deconv])
        (\<lambda>ops. Inr (ops @ [ReLU])))"

text \<open>The table \<^verbatim>\<open>dropout_type\<close> of \<^verbatim>\<open>PertDropout.__init__\<close>.\<close>

definition dropout_type :: "string \<Rightarrow> drop_kind option" where
  "dropout_type =
     [''dropout'' \<mapsto> Channelwise, ''alpha'' \<mapsto> Alpha, ''feature'' \<mapsto> FeatureAlpha]"

definition vnet_PertDropout :: "real \<Rightarrow> string \<Rightarrow> error + pert_dropout" where
  "vnet_PertDropout p pert_type =
     (let top = 0.5 + p / 2;
          bottom = 0.5 - p / 2
      in case dropout_type pert_type of
           None \<Rightarrow> Inl KeyError
         | Some kind \<Rightarrow>
             bindE (mk_dropout kind bottom) (\<lambda>weak.
             bindE (mk_dropout kind top) (\<lambda>strong.
               Inr \<lparr>pert_p = p, dropouts = [weak, strong], len = length [weak, strong]\<rparr>)))"

record vnet =
  has_dropout :: bool
  pert :: pert_dropout
  block_one :: "layer list"
  block_one_dw :: "layer list"
  block_two :: "layer list"
  block_two_dw :: "layer list"
  block_three :: "layer list"
  block_three_dw :: "layer list"
  block_four :: "layer list"
  block_four_dw :: "layer list"
  block_five :: "layer list"
  block_five_up :: "layer list"
  block_six :: "layer list"
  block_six_up :: "layer list"
  block_seven :: "layer list"
  block_seven_up :: "layer list"
  block_eight :: "layer list"
  block_eight_up :: "layer list"
  block_nine :: "layer list"
  vnet_out_conv :: layer
  vnet_dropout :: layer
  training :: bool

definition VNet ::
  "nat \<Rightarrow> nat \<Rightarrow> nat \<Rightarrow> string \<Rightarrow> bool \<Rightarrow> real \<Rightarrow> string \<Rightarrow> error + vnet" where
  "VNet n_channels n_classes n_filters normalization has_dropout' pert_gap pert_type =
     bindE (vnet_PertDropout pert_gap pert_type) (\<lambda>pert'.
     bindE (vnet_ConvBlock ''block_one'' 1 n_channels n_filters normalization) (\<lambda>b1.
     bindE (DownsamplingConvBlock ''block_one_dw'' n_filters (2 * n_filters) 2 normalization) (\<lambda>b1d.
     bindE (vnet_ConvBlock ''block_two'' 2 (n_filters * 2) (n_filters * 2) normalization) (\<lambda>b2.
     bindE (DownsamplingConvBlock ''block_two_dw'' (n_filters * 2) (n_filters * 4) 2 normalization) (\<lambda>b2d.
     bindE (vnet_ConvBlock ''block_three'' 3 (n_filters * 4) (n_filters * 4) normalization) (\<lambda>b3.
     bindE (DownsamplingConvBlock ''block_three_dw'' (n_filters * 4) (n_filters * 8) 2 normalization) (\<lambda>b3d.
     bindE (vnet_ConvBlock ''block_four'' 3 (n_filters * 8) (n_filters * 8) normalization) (\<lambda>b4.
     bindE (DownsamplingConvBlock ''block_four_dw'' (n_filters * 8) (n_filters * 16) 2 normalization) (\<lambda>b4d.
     bindE (vnet_ConvBlock ''block_five'' 3 (n_filters * 16) (n_filters * 16) normalization) (\<lambda>b5.
     bindE (UpsamplingDeconvBlock ''block_five_up'' (n_filters * 16) (n_filters * 8) 2 normalization) (\<lambda>b5u.
     bindE (vnet_ConvBlock ''block_six'' 3 (n_filters * 8) (n_filters * 8) normalization) (\<lambda>b6.
     bindE (UpsamplingDeconvBlock ''block_six_up'' (n_filters * 8) (n_filters * 4) 2 normalization) (\<lambda>b6u.
     bindE (vnet_ConvBlock ''block_seven'' 3 (n_filters * 4) (n_filters * 4) normalization) (\<lambda>b7.
     bindE (UpsamplingDeconvBlock ''block_seven_up'' (n_filters * 4) (n_filters * 2) 2 normalization) (\<lambda>b7u.
     bindE (vnet_ConvBlock ''block_eight'' 2 (n_filters * 2) (n_filters * 2) normalization) (\<lambda>b8.
     bindE (UpsamplingDeconvBlock ''block_eight_up'' (n_filters * 2) n_filters 2 normalization) (\<lambda>b8u.
     bindE (vnet_ConvBlock ''block_nine'' 1 n_filters n_filters normalization) (\<lambda>b9.
     bindE (mk_dropout Channelwise 0.5) (\<lambda>drop.
       Inr \<lparr>has_dropout = has_dropout', pert = pert',
            block_one = b1, block_one_dw = b1d, block_two = b2, block_two_dw = b2d,
            block_three = b3, block_three_dw = b3d, block_four = b4, block_four_dw = b4d,
            block_five = b5, block_five_up = b5u, block_six = b6, block_six_up = b6u,
            block_seven = b7, block_seven_up = b7u, block_eight = b8, block_eight_up = b8u,
            block_nine = b9,
            vnet_out_conv = Conv 3 (''out_conv'', 0) n_filters n_classes 1 1 0,
            vnet_dropout = drop, training = True\<rparr>)))))))))))))))))))"

definition VNet_encoder :: "vnet \<Rightarrow> tensor \<Rightarrow> tensor list exec" where
  "VNet_encoder self input =
     andThen (record_call EncoderCall) (\<lambda>_.
     andThen (Sequential (training self) (block_one self) input) (\<lambda>x1.
     andThen (Sequential (training self) (block_one_dw self) x1) (\<lambda>x1_dw.
     andThen (Sequential (training self) (block_two self) x1_dw) (\<lambda>x2.
     andThen (Sequential (training self) (block_two_dw self) x2) (\<lambda>x2_dw.
     andThen (Sequential (training self) (block_three self) x2_dw) (\<lambda>x3.
     andThen (Sequential (training self) (block_three_dw self) x3) (\<lambda>x3_dw.
     andThen (Sequential (training self) (block_four self) x3_dw) (\<lambda>x4.
     andThen (Sequential (training self) (block_four_dw self) x4) (\<lambda>x4_dw.
     andThen (Sequential (training self) (block_five self) x4_dw) (\<lambda>x5.
     andThen (if has_dropout self then apply_layer (training self) (vnet_dropout self) x5
              else ret x5) (\<lambda>x5.
       ret [x1, x2, x3, x4, x5])))))))))))"

definition VNet_decoder :: "vnet \<Rightarrow> tensor list \<Rightarrow> bool \<Rightarrow> tensor exec" where
  "VNet_decoder self features no_drop =
     andThen (record_call DecoderCall) (\<lambda>_.
     andThen (lift (index features 0)) (\<lambda>x1.
     andThen (lift (index features 1)) (\<lambda>x2.
     andThen (lift (index features 2)) (\<lambda>x3.
     andThen (lift (index features 3)) (\<lambda>x4.
     andThen (lift (index features 4)) (\<lambda>x5.
     andThen (Sequential (training self) (block_five_up self) x5) (\<lambda>x5_up.
     andThen (lift (add x5_up x4)) (\<lambda>x5_up.
     andThen (Sequential (training self) (block_six self) x5_up) (\<lambda>x6.
     andThen (Sequential (training self) (block_six_up self) x6) (\<lambda>x6_up.
     andThen (lift (add x6_up x3)) (\<lambda>x6_up.
     andThen (Sequential (training self) (block_seven self) x6_up) (\<lambda>x7.
     andThen (Sequential (training self) (block_seven_up self) x7) (\<lambda>x7_up.
     andThen (lift (add x7_up x2)) (\<lambda>x7_up.
     andThen (Sequential (training self) (block_eight self) x7_up) (\<lambda>x8.
     andThen (Sequential (training self) (block_eight_up self) x8) (\<lambda>x8_up.
     andThen (lift (add x8_up x1)) (\<lambda>x8_up.
     andThen (Sequential (training self) (block_nine self) x8_up) (\<lambda>x9.
     andThen (if \<not> no_drop \<and> has_dropout self
              then apply_layer (training self) (vnet_dropout self) x9
              else ret x9) (\<lambda>x9.
       apply_layer (training self) (vnet_out_conv self) x9)))))))))))))))))))"

text \<open>The body of the "normal" branch of \<^verbatim>\<open>VNet.forward\<close> (lines 311-316).\<close>

definition VNet_forward_normal :: "vnet \<Rightarrow> tensor list \<Rightarrow> result exec" where
  "VNet_forward_normal self features =
     andThen (mapM (\<lambda>feat. apply_layer (training self) (vnet_dropout self) feat) features)
       (\<lambda>features_perturbed.
     andThen (mapM (\<lambda>(feat, feat_pert). lift (cat0 feat feat_pert))
                (zip features features_perturbed)) (\<lambda>combined_features.
     andThen (VNet_decoder self combined_features True) (\<lambda>outs.
     andThen (lift (chunk2 outs)) (\<lambda>pieces.
       ret (Tuple pieces)))))"

text \<open>The body of the "strong" branch of \<^verbatim>\<open>VNet.forward\<close> (lines 318-347).\<close>

definition VNet_forward_strong :: "vnet \<Rightarrow> tensor list \<Rightarrow> result exec" where
  "VNet_forward_strong self features =
     andThen (split_halves features) (\<lambda>(features1, features2).
     andThen (perturb 0.7 features1 features2)
       (\<lambda>(weak_features, strong_features, complete_features).
     andThen (VNet_decoder self features1 False) (\<lambda>pred_u_s1_clean.
     andThen (VNet_decoder self features2 False) (\<lambda>pred_u_s2_clean.
     andThen (VNet_decoder self weak_features False) (\<lambda>pred_u_s1_weak.
     andThen (VNet_decoder self strong_features False) (\<lambda>pred_u_s2_strong.
     andThen (VNet_decoder self complete_features False) (\<lambda>pred_complete.
       ret (Tuple [pred_u_s1_clean, pred_u_s2_clean, pred_u_s1_weak, pred_u_s2_strong,
                   pred_complete]))))))))"

text \<open>
  \<^verbatim>\<open>VNet.forward\<close> mutates \<^verbatim>\<open>self.has_dropout\<close>, so it returns the model next to
  its result: \<open>self\<close> is the model as the body sees it after lines 305-307, and the
  field is written back (lines 350-351) only on the path that reaches the last
  \<^verbatim>\<open>return\<close>. An exception leaves the model as it is at that point.
\<close>

definition VNet_forward ::
  "vnet \<Rightarrow> tensor \<Rightarrow> bool \<Rightarrow> bool \<Rightarrow> string \<Rightarrow> world \<Rightarrow> (error + result) \<times> vnet \<times> world" where
  "VNet_forward self0 input turnoff_drop need_fp input_type w0 =
     (let saved = has_dropout self0;
          self = (if turnoff_drop then self0\<lparr>has_dropout := False\<rparr> else self0)
      in case VNet_encoder self input w0 of
           (Inl e, w1) \<Rightarrow> (Inl e, self, w1)
         | (Inr features, w1) \<Rightarrow>
             if need_fp \<and> input_type = ''normal'' then
               (case VNet_forward_normal self features w1 of (r, w2) \<Rightarrow> (r, self, w2))
             else if need_fp \<and> input_type = ''strong'' then
               (case VNet_forward_strong self features w1 of (r, w2) \<Rightarrow> (r, self, w2))
             else
               (case VNet_decoder self features False w1 of
                  (Inl e, w2) \<Rightarrow> (Inl e, self, w2)
                | (Inr out, w2) \<Rightarrow>
                    (Inr (Single out),
                     if turnoff_drop then self\<lparr>has_dropout := saved\<rparr> else self,
                     w2)))"

section \<open>Vocabulary of the statements\<close>

text \<open>
  \<open>returns m w Q\<close>: run from the world \<open>w\<close>, the computation \<open>m\<close> raises nothing and
  its value and final world satisfy \<open>Q\<close>.
\<close>

definition returns :: "'a exec \<Rightarrow> world \<Rightarrow> ('a \<Rightarrow> world \<Rightarrow> bool) \<Rightarrow> bool" where
  "returns m w Q = (case m w of (Inl e, w') \<Rightarrow> False | (Inr a, w') \<Rightarrow> Q a w')"

text \<open>The number of encoder and of decoder calls recorded in a world.\<close>

definition encoder_calls :: "world \<Rightarrow> nat" where
  "encoder_calls w = count_list (calls w) EncoderCall"

definition decoder_calls :: "world \<Rightarrow> nat" where
  "decoder_calls w = count_list (calls w) DecoderCall"

text \<open>The batch size of a tensor (its first dimension) and its number of dimensions.\<close>

definition batch :: "tensor \<Rightarrow> nat option" where
  "batch t = (case shape t of [] \<Rightarrow> None | n # s \<Rightarrow> Some n)"

definition rank :: "tensor \<Rightarrow> nat" where
  "rank t = length (shape t)"

text \<open>
  The encoder levels fused into a decoder output, outermost first. Following the
  upsampled path of the expression, \<open>cat_skips\<close> collects the other operand of every
  channel concatenation \<^verbatim>\<open>torch.cat([x2, x1], dim=1)\<close> and \<open>add_skips\<close> the other
  operand of every addition \<^verbatim>\<open>x_up + x\<close>.
\<close>

fun cat_skips :: "expr \<Rightarrow> expr list" where
  "cat_skips (Cat1 skip up) = skip # cat_skips up"
| "cat_skips (Apply l e) = cat_skips e"
| "cat_skips (Dropped kind p seed e) = cat_skips e"
| "cat_skips e = []"

fun add_skips :: "expr \<Rightarrow> expr list" where
  "add_skips (Add up skip) = skip # add_skips up"
| "add_skips (Apply l e) = add_skips e"
| "add_skips (Dropped kind p seed e) = add_skips e"
| "add_skips e = []"

text \<open>\<open>subexpr a b\<close>: the expression \<open>a\<close> occurs in \<open>b\<close>, so \<open>b\<close> is computed from \<open>a\<close>.\<close>

fun subexpr :: "expr \<Rightarrow> expr \<Rightarrow> bool" where
  "subexpr a (Apply l e) = (a = Apply l e \<or> subexpr a e)"
| "subexpr a (Dropped kind p seed e) = (a = Dropped kind p seed e \<or> subexpr a e)"
| "subexpr a (OneMinus e) = (a = OneMinus e \<or> subexpr a e)"
| "subexpr a (Chunk i e) = (a = Chunk i e \<or> subexpr a e)"
| "subexpr a (Mul e1 e2) = (a = Mul e1 e2 \<or> subexpr a e1 \<or> subexpr a e2)"
| "subexpr a (Add e1 e2) = (a = Add e1 e2 \<or> subexpr a e1 \<or> subexpr a e2)"
| "subexpr a (Cat0 e1 e2) = (a = Cat0 e1 e2 \<or> subexpr a e1 \<or> subexpr a e2)"
| "subexpr a (Cat1 e1 e2) = (a = Cat1 e1 e2 \<or> subexpr a e1 \<or> subexpr a e2)"
| "subexpr a b = (a = b)"

text \<open>The result of \<open>forward\<close> as a list of tensors.\<close>

fun outputs :: "result \<Rightarrow> tensor list" where
  "outputs (Single t) = [t]"
| "outputs (Tuple ts) = ts"

text \<open>
  The shapes of a five-level feature pyramid over an input of batch size \<open>n\<close>: every
  level halves each spatial dimension of the level before it (integer halving), and the
  channel counts are read from the configured list (U-Net) or double from \<open>n_filters\<close>
  on (V-Net).
\<close>

definition unet_pyramid :: "nat \<Rightarrow> nat list \<Rightarrow> nat \<Rightarrow> nat \<Rightarrow> nat list list" where
  "unet_pyramid n chns h w =
     [[n, chns ! 0, h, w],
      [n, chns ! 1, h div 2, w div 2],
      [n, chns ! 2, h div 4, w div 4],
      [n, chns ! 3, h div 8, w div 8],
      [n, chns ! 4, h div 16, w div 16]]"

definition vnet_pyramid :: "nat \<Rightarrow> nat \<Rightarrow> nat \<Rightarrow> nat \<Rightarrow> nat \<Rightarrow> nat list list" where
  "vnet_pyramid n f d h w =
     [[n, f, d, h, w],
      [n, f * 2, d div 2, h div 2, w div 2],
      [n, f * 4, d div 4, h div 4, w div 4],
      [n, f * 8, d div 8, h div 8, w div 8],
      [n, f * 16, d div 16, h div 16, w div 16]]"

text \<open>
  The run-time check of the normalisation layer chosen by \<^verbatim>\<open>normalization\<close>, on a
  tensor of batch size \<open>n\<close>, \<open>c\<close> channels and spatial dimensions \<open>sp\<close>: batch
  normalisation in training mode, group normalisation (16 groups) and instance
  normalisation each refuse an input that leaves a single value to normalise over.
\<close>

definition norm_ok :: "bool \<Rightarrow> string \<Rightarrow> nat \<Rightarrow> nat \<Rightarrow> nat list \<Rightarrow> bool" where
  "norm_ok tr normalization n c sp =
     (if normalization = ''batchnorm'' then \<not> (tr \<and> n * prod_list sp = 1)
      else if normalization = ''groupnorm'' then (n * c) div 16 * prod_list sp \<noteq> 1
      else if normalization = ''instancenorm'' then prod_list sp \<noteq> 1
      else True)"

text \<open>
  \<open>silent m\<close>: whatever its outcome, \<open>m\<close> calls neither the encoder nor the decoder.
  \<open>decodes m\<close>: whatever its outcome, \<open>m\<close> calls the decoder some number of times and
  never the encoder.
\<close>

definition silent :: "'a exec \<Rightarrow> bool" where
  "silent m = (\<forall>w. calls (snd (m w)) = calls w)"

definition decodes :: "'a exec \<Rightarrow> bool" where
  "decodes m = (\<forall>w. \<exists>j. calls (snd (m w)) = calls w @ replicate j DecoderCall)"

section \<open>Rules for computations, layers and the blocks of the U-Net\<close>

subsection \<open>Rules for computations\<close>

lemma ret_eq: "ret a w = (r, w') \<longleftrightarrow> r = Inr a \<and> w' = w"
  by (auto simp add: ret_def)

lemma raise_eq: "raise e w = (r, w') \<longleftrightarrow> r = Inl e \<and> w' = w"
  by (auto simp add: raise_def)

lemma lift_eq: "lift x w = (r, w') \<longleftrightarrow> r = x \<and> w' = w"
  by (auto simp add: lift_def)

lemma andThen_Inr:
  "andThen m f w = (Inr b, w') \<longleftrightarrow> (\<exists>a w1. m w = (Inr a, w1) \<and> f a w1 = (Inr b, w'))"
  by (cases "m w") (auto simp add: andThen_def split: sum.splits)

lemma andThen_cases:
  assumes "andThen m f w = (r, w')"
  obtains (stop) e where "m w = (Inl e, w')" "r = Inl e"
        | (go) a w1 where "m w = (Inr a, w1)" "f a w1 = (r, w')"
  using assms by (cases "m w") (auto simp add: andThen_def split: sum.splits)

lemma returns_ret [simp]: "returns (ret a) w Q = Q a w"
  by (simp add: returns_def ret_def)

lemma returns_raise [simp]: "returns (raise e) w Q = False"
  by (simp add: returns_def raise_def)

lemma returns_lift [simp]: "returns (lift r) w Q = (case r of Inl e \<Rightarrow> False | Inr a \<Rightarrow> Q a w)"
  by (simp add: returns_def lift_def split: sum.splits)

lemma returns_fresh [simp]: "returns fresh w Q = Q (rng w) (w\<lparr>rng := Suc (rng w)\<rparr>)"
  by (simp add: returns_def fresh_def)

lemma returns_record_call [simp]:
  "returns (record_call c) w Q = Q () (w\<lparr>calls := calls w @ [c]\<rparr>)"
  by (simp add: returns_def record_call_def)

lemma returns_andThen [simp]:
  "returns (andThen m f) w Q = returns m w (\<lambda>a w1. returns (f a) w1 Q)"
  by (cases "m w") (auto simp add: returns_def andThen_def split: sum.splits)

lemma returns_mono:
  assumes "returns m w P" and "\<And>a w1. P a w1 \<Longrightarrow> Q a w1"
  shows "returns m w Q"
  using assms by (cases "m w") (auto simp add: returns_def split: sum.splits)

lemma returns_iff: "returns m w Q \<longleftrightarrow> (\<exists>a w'. m w = (Inr a, w') \<and> Q a w')"
  by (cases "m w") (auto simp add: returns_def split: sum.splits)

subsection \<open>Layers\<close>

lemma conv_out_same [simp]: "Suc 0 \<le> d \<Longrightarrow> conv_out 3 (Suc 0) (Suc 0) d = Some d"
  by (simp add: conv_out_def)

lemma conv_out_pointwise [simp]: "conv_out (Suc 0) (Suc 0) 0 d = (if d = 0 then None else Some d)"
  by (auto simp add: conv_out_def)

lemma conv_out_half [simp]: "2 \<le> d \<Longrightarrow> conv_out 2 2 0 d = Some (d div 2)"
  by (auto simp add: conv_out_def)

lemma returns_apply_Conv:
  "returns (apply_layer tr (Conv nd name cin cout k st pad) x) w Q =
     (case layer_shape tr (Conv nd name cin cout k st pad) (shape x) of
        Inl e \<Rightarrow> False
      | Inr s \<Rightarrow> Q \<lparr>shape = s, val = Apply (Conv nd name cin cout k st pad) (val x)\<rparr> w)"
  by (simp add: apply_layer_def split: sum.splits)

lemma returns_apply_BatchNorm:
  "returns (apply_layer tr (BatchNorm nd name c) x) w Q =
     (case layer_shape tr (BatchNorm nd name c) (shape x) of
        Inl e \<Rightarrow> False
      | Inr s \<Rightarrow> Q \<lparr>shape = s, val = Apply (BatchNorm nd name c) (val x)\<rparr> w)"
  by (simp add: apply_layer_def split: sum.splits)

lemma returns_apply_LeakyReLU:
  "returns (apply_layer tr LeakyReLU x) w Q =
     Q \<lparr>shape = shape x, val = Apply LeakyReLU (val x)\<rparr> w"
  by (simp add: apply_layer_def split: sum.splits)

lemma returns_apply_MaxPool:
  "returns (apply_layer tr (MaxPool nd k) x) w Q =
     (case layer_shape tr (MaxPool nd k) (shape x) of
        Inl e \<Rightarrow> False
      | Inr s \<Rightarrow> Q \<lparr>shape = s, val = Apply (MaxPool nd k) (val x)\<rparr> w)"
  by (simp add: apply_layer_def split: sum.splits)

lemma returns_apply_Upsample:
  "returns (apply_layer tr (Upsample nd k) x) w Q =
     (case layer_shape tr (Upsample nd k) (shape x) of
        Inl e \<Rightarrow> False
      | Inr s \<Rightarrow> Q \<lparr>shape = s, val = Apply (Upsample nd k) (val x)\<rparr> w)"
  by (simp add: apply_layer_def split: sum.splits)

lemma returns_apply_Dropout:
  "returns (apply_layer tr (DropoutLayer kind p) x) w Q =
     (if tr then Q \<lparr>shape = shape x, val = Dropped kind p (rng w) (val x)\<rparr> (w\<lparr>rng := Suc (rng w)\<rparr>)
      else Q x w)"
  by (simp add: apply_layer_def)

lemmas returns_apply =
  returns_apply_Conv returns_apply_BatchNorm returns_apply_LeakyReLU returns_apply_MaxPool
  returns_apply_Upsample returns_apply_Dropout

lemma mult3_eq_1: "(n::nat) * h * w = 1 \<longleftrightarrow> n = 1 \<and> h = 1 \<and> w = 1"
  by auto

subsection \<open>Blocks of the U-Net\<close>

lemma unet_ConvBlock_Inr:
  "unet_ConvBlock name cin cout p = Inr cb \<Longrightarrow>
     cb = [Conv 2 (name, 0) cin cout 3 1 1, BatchNorm 2 (name, 1) cout, LeakyReLU,
           DropoutLayer Elementwise p,
           Conv 2 (name, 4) cout cout 3 1 1, BatchNorm 2 (name, 5) cout, LeakyReLU]"
  by (auto simp add: unet_ConvBlock_def bindE_def mk_dropout_def split: if_splits)

lemma unet_ConvBlock_shape:
  assumes "unet_ConvBlock name cin cout p = Inr cb"
    and "shape x = [n, cin, h, w]" and "1 \<le> h" and "1 \<le> w"
    and "\<not> (tr \<and> n * h * w = 1)"
  shows "returns (Sequential tr cb x) w0
           (\<lambda>y w'. shape y = [n, cout, h, w] \<and> calls w' = calls w0 \<and> cat_skips (val y) = cat_skips (val x))"
  using assms(2-) unfolding unet_ConvBlock_Inr [OF assms(1)]
  by (auto simp add: returns_apply)

lemma DownBlock_shape:
  assumes "DownBlock name cin cout p = Inr db"
    and "shape x = [n, cin, h, w]" and "2 \<le> h" and "2 \<le> w"
    and "\<not> (tr \<and> n * (h div 2) * (w div 2) = 1)"
  shows "returns (Sequential tr db x) w0
           (\<lambda>y w'. shape y = [n, cout, h div 2, w div 2] \<and> calls w' = calls w0)"
proof -
  from assms(1) obtain cb where cb: "unet_ConvBlock (name @ ''.1'') cin cout p = Inr cb"
    and db: "db = MaxPool 2 2 # cb"
    by (auto simp add: DownBlock_def bindE_def split: sum.splits)
  have h: "1 \<le> h div 2" and w: "1 \<le> w div 2" using assms(3,4) by auto
  define t where "t = \<lparr>shape = [n, cin, h div 2, w div 2], val = Apply (MaxPool 2 2) (val x)\<rparr>"
  have t: "shape t = [n, cin, h div 2, w div 2]" by (simp add: t_def)
  have "Sequential tr db x w0 = Sequential tr cb t w0"
    unfolding db t_def using assms(2-4)
    by (simp add: andThen_def apply_layer_def ret_def)
  then have "returns (Sequential tr db x) w0 Q = returns (Sequential tr cb t) w0 Q" for Q
    by (simp add: returns_def)
  then show ?thesis
    using returns_mono [OF unet_ConvBlock_shape [OF cb t h w assms(5), of w0]] by simp
qed

lemma UpBlock_shape:
  assumes "UpBlock name c1 c2 cout p True = Inr ub"
    and "shape x1 = [n, c1, h, w]" and "shape x2 = [n, c2, h2, w2]"
    and "h2 = h * 2" and "w2 = w * 2" and "1 \<le> h" and "1 \<le> w"
  shows "returns (UpBlock_forward tr ub x1 x2) w0
           (\<lambda>y w'. shape y = [n, cout, h2, w2] \<and> calls w' = calls w0 \<and>
                    cat_skips (val y) = val x2 # cat_skips (val x1))"
proof -
  from assms(1) obtain cb where cb: "unet_ConvBlock (name @ ''.conv'') (c2 * 2) cout p = Inr cb"
    and ub: "ub = \<lparr>ub_bilinear = True,
                      ub_conv1x1 = Some (Conv 2 (name @ ''.conv1x1'', 0) c1 c2 1 1 0),
                      ub_up = Upsample 2 2, ub_conv = cb\<rparr>"
    by (auto simp add: UpBlock_def bindE_def split: sum.splits)
  have big: "\<not> (tr \<and> n * h2 * w2 = 1)" using assms(4-7) by auto
  have h2: "1 \<le> h2" and w2: "1 \<le> w2" using assms(4-7) by auto
  define t where "t = \<lparr>shape = [n, c2 * 2, h2, w2],
    val = Cat1 (val x2) (Apply (Upsample 2 2) (Apply (Conv 2 (name @ ''.conv1x1'', 0) c1 c2 1 1 0) (val x1)))\<rparr>"
  have t: "shape t = [n, c2 * 2, h2, w2]" by (simp add: t_def)
  have "UpBlock_forward tr ub x1 x2 w0 = Sequential tr cb t w0"
    unfolding ub t_def UpBlock_forward_def using assms(2-7)
    by (simp add: andThen_def apply_layer_def ret_def lift_def cat1_def mult_2_right)
  then have "returns (UpBlock_forward tr ub x1 x2) w0 Q = returns (Sequential tr cb t) w0 Q" for Q
    by (simp add: returns_def)
  then show ?thesis
    using returns_mono [OF unet_ConvBlock_shape [OF cb t h2 w2 big, of w0]] by (simp add: t_def)
qed


lemma bindE_Inr_iff: "bindE r f = Inr b \<longleftrightarrow> (\<exists>a. r = Inr a \<and> f a = Inr b)"
  by (cases r) (simp_all add: bindE_def)

lemma Encoder_Inr:
  assumes "Encoder ps = Inr enc"
  obtains p0 p1 p2 p3 p4 where
    "length (feature_chns ps) = 5"
    "unet_ConvBlock ''encoder.in_conv'' (in_chns ps) (feature_chns ps ! 0) p0 = Inr (in_conv enc)"
    "DownBlock ''encoder.down1'' (feature_chns ps ! 0) (feature_chns ps ! 1) p1 = Inr (down1 enc)"
    "DownBlock ''encoder.down2'' (feature_chns ps ! 1) (feature_chns ps ! 2) p2 = Inr (down2 enc)"
    "DownBlock ''encoder.down3'' (feature_chns ps ! 2) (feature_chns ps ! 3) p3 = Inr (down3 enc)"
    "DownBlock ''encoder.down4'' (feature_chns ps ! 3) (feature_chns ps ! 4) p4 = Inr (down4 enc)"
  using assms by (auto simp add: Encoder_def Let_def bindE_Inr_iff split: if_splits)

lemma Decoder_Inr:
  assumes "Decoder ps = Inr dec"
  shows "length (feature_chns ps) = 5"
    and "UpBlock ''decoder.up1'' (feature_chns ps ! 4) (feature_chns ps ! 3) (feature_chns ps ! 3) 0 True = Inr (up1 dec)"
    and "UpBlock ''decoder.up2'' (feature_chns ps ! 3) (feature_chns ps ! 2) (feature_chns ps ! 2) 0 True = Inr (up2 dec)"
    and "UpBlock ''decoder.up3'' (feature_chns ps ! 2) (feature_chns ps ! 1) (feature_chns ps ! 1) 0 True = Inr (up3 dec)"
    and "UpBlock ''decoder.up4'' (feature_chns ps ! 1) (feature_chns ps ! 0) (feature_chns ps ! 0) 0 True = Inr (up4 dec)"
    and "out_conv dec = Conv 2 (''decoder.out_conv'', 0) (feature_chns ps ! 0) (class_num ps) 3 1 1"
  using assms by (auto simp add: Decoder_def Let_def bindE_Inr_iff split: if_splits)

lemma div_chain: "(h::nat) div 2 div 2 = h div 4" "h div 4 div 2 = h div 8" "h div 8 div 2 = h div 16"
  by (simp_all add: div_mult2_eq [symmetric])

lemma Encoder_forward_shape:
  assumes enc: "Encoder ps = Inr enc"
    and x: "shape x = [n, in_chns ps, h, w]" and h: "16 \<le> h" and w: "16 \<le> w"
    and bn: "\<not> (tr \<and> n * (h div 16) * (w div 16) = 1)"
  shows "returns (Encoder_forward tr enc x) w0
           (\<lambda>fs w'. map shape fs = unet_pyramid n (feature_chns ps) h w \<and>
                     calls w' = calls w0 @ [EncoderCall])"
proof -
  from enc obtain p0 p1 p2 p3 p4 where
    c0: "unet_ConvBlock ''encoder.in_conv'' (in_chns ps) (feature_chns ps ! 0) p0 = Inr (in_conv enc)"
    and d1: "DownBlock ''encoder.down1'' (feature_chns ps ! 0) (feature_chns ps ! 1) p1 = Inr (down1 enc)"
    and d2: "DownBlock ''encoder.down2'' (feature_chns ps ! 1) (feature_chns ps ! 2) p2 = Inr (down2 enc)"
    and d3: "DownBlock ''encoder.down3'' (feature_chns ps ! 2) (feature_chns ps ! 3) p3 = Inr (down3 enc)"
    and d4: "DownBlock ''encoder.down4'' (feature_chns ps ! 3) (feature_chns ps ! 4) p4 = Inr (down4 enc)"
    by (rule Encoder_Inr)
  define wa where "wa = w0\<lparr>calls := calls w0 @ [EncoderCall]\<rparr>"
  have "returns (Sequential tr (in_conv enc) x) wa
          (\<lambda>y w'. shape y = [n, feature_chns ps ! 0, h, w] \<and> calls w' = calls wa \<and>
                   cat_skips (val y) = cat_skips (val x))"
    by (rule unet_ConvBlock_shape [OF c0 x]) (use h w in auto)
  then obtain x0 w1 where r0: "Sequential tr (in_conv enc) x wa = (Inr x0, w1)"
    and s0: "shape x0 = [n, feature_chns ps ! 0, h, w]" and t0: "calls w1 = calls wa"
    by (auto simp add: returns_iff)
  have "returns (Sequential tr (down1 enc) x0) w1
          (\<lambda>y w'. shape y = [n, feature_chns ps ! 1, h div 2, w div 2] \<and> calls w' = calls w1)"
    by (rule DownBlock_shape [OF d1 s0]) (use h w in auto)
  then obtain x1 w2 where r1: "Sequential tr (down1 enc) x0 w1 = (Inr x1, w2)"
    and s1: "shape x1 = [n, feature_chns ps ! 1, h div 2, w div 2]" and t1: "calls w2 = calls w1"
    by (auto simp add: returns_iff)
  have "returns (Sequential tr (down2 enc) x1) w2
          (\<lambda>y w'. shape y = [n, feature_chns ps ! 2, h div 2 div 2, w div 2 div 2] \<and> calls w' = calls w2)"
    by (rule DownBlock_shape [OF d2 s1]) (use h w in \<open>auto simp add: div_chain\<close>)
  then obtain x2 w3 where r2: "Sequential tr (down2 enc) x1 w2 = (Inr x2, w3)"
    and s2: "shape x2 = [n, feature_chns ps ! 2, h div 4, w div 4]" and t2: "calls w3 = calls w2"
    by (auto simp add: returns_iff div_chain)
  have "returns (Sequential tr (down3 enc) x2) w3
          (\<lambda>y w'. shape y = [n, feature_chns ps ! 3, h div 4 div 2, w div 4 div 2] \<and> calls w' = calls w3)"
    by (rule DownBlock_shape [OF d3 s2]) (use h w in \<open>auto simp add: div_chain\<close>)
  then obtain x3 w4 where r3: "Sequential tr (down3 enc) x2 w3 = (Inr x3, w4)"
    and s3: "shape x3 = [n, feature_chns ps ! 3, h div 8, w div 8]" and t3: "calls w4 = calls w3"
    by (auto simp add: returns_iff div_chain)
  have "returns (Sequential tr (down4 enc) x3) w4
          (\<lambda>y w'. shape y = [n, feature_chns ps ! 4, h div 8 div 2, w div 8 div 2] \<and> calls w' = calls w4)"
    by (rule DownBlock_shape [OF d4 s3]) (use h w bn in \<open>auto simp add: div_chain\<close>)
  then obtain x4 w5 where r4: "Sequential tr (down4 enc) x3 w4 = (Inr x4, w5)"
    and s4: "shape x4 = [n, feature_chns ps ! 4, h div 16, w div 16]" and t4: "calls w5 = calls w4"
    by (auto simp add: returns_iff div_chain)
  have "Encoder_forward tr enc x w0 = (Inr [x0, x1, x2, x3, x4], w5)"
    by (simp add: Encoder_forward_def andThen_def record_call_def ret_def wa_def [symmetric]
          r0 r1 r2 r3 r4)
  then show ?thesis
    by (simp add: returns_def unet_pyramid_def s0 s1 s2 s3 s4 t0 t1 t2 t3 t4 wa_def)
qed


lemma length5E:
  assumes "length xs = 5"
  obtains a b c d e where "xs = [a, b, c, d, e]"
  using assms by (auto simp add: length_Suc_conv eval_nat_numeral)

lemma Decoder_forward_shape:
  assumes dec: "Decoder ps = Inr dec"
    and fs: "map shape fs = unet_pyramid n (feature_chns ps) h w"
    and h: "16 dvd h" "0 < h" and w: "16 dvd w" "0 < w"
  shows "returns (Decoder_forward tr dec fs) w0
           (\<lambda>y w'. shape y = [n, class_num ps, h, w] \<and> calls w' = calls w0 @ [DecoderCall] \<and>
                    cat_skips (val y) = [val (fs ! 0), val (fs ! 1), val (fs ! 2), val (fs ! 3)]
                                      @ cat_skips (val (fs ! 4)))"
proof -
  note u = Decoder_Inr [OF dec]
  from fs have "length fs = 5"
    using length_map [of shape fs] by (simp add: unet_pyramid_def)
  then obtain x0 x1 x2 x3 x4 where fs5: "fs = [x0, x1, x2, x3, x4]"
    by (rule length5E)
  from h w obtain a b where a: "h = 16 * a" "1 \<le> a" and b: "w = 16 * b" "1 \<le> b"
    by (auto elim!: dvdE)
  from fs have s0: "shape x0 = [n, feature_chns ps ! 0, 16 * a, 16 * b]"
    and s1: "shape x1 = [n, feature_chns ps ! 1, 8 * a, 8 * b]"
    and s2: "shape x2 = [n, feature_chns ps ! 2, 4 * a, 4 * b]"
    and s3: "shape x3 = [n, feature_chns ps ! 3, 2 * a, 2 * b]"
    and s4: "shape x4 = [n, feature_chns ps ! 4, a, b]"
    by (simp_all add: fs5 unet_pyramid_def a b)
  define wa where "wa = w0\<lparr>calls := calls w0 @ [DecoderCall]\<rparr>"
  have "returns (UpBlock_forward tr (up1 dec) x4 x3) wa
          (\<lambda>y w'. shape y = [n, feature_chns ps ! 3, 2 * a, 2 * b] \<and> calls w' = calls wa \<and>
                   cat_skips (val y) = val x3 # cat_skips (val x4))"
    by (rule UpBlock_shape [OF u(2) s4 s3]) (use a b in auto)
  then obtain y1 w1 where r1: "UpBlock_forward tr (up1 dec) x4 x3 wa = (Inr y1, w1)"
    and t1: "shape y1 = [n, feature_chns ps ! 3, 2 * a, 2 * b]" and c1: "calls w1 = calls wa"
    and k1: "cat_skips (val y1) = val x3 # cat_skips (val x4)"
    by (auto simp add: returns_iff)
  have "returns (UpBlock_forward tr (up2 dec) y1 x2) w1
          (\<lambda>y w'. shape y = [n, feature_chns ps ! 2, 4 * a, 4 * b] \<and> calls w' = calls w1 \<and>
                   cat_skips (val y) = val x2 # cat_skips (val y1))"
    by (rule UpBlock_shape [OF u(3) t1 s2]) (use a b in auto)
  then obtain y2 w2 where r2: "UpBlock_forward tr (up2 dec) y1 x2 w1 = (Inr y2, w2)"
    and t2: "shape y2 = [n, feature_chns ps ! 2, 4 * a, 4 * b]" and c2: "calls w2 = calls w1"
    and k2: "cat_skips (val y2) = val x2 # cat_skips (val y1)"
    by (auto simp add: returns_iff)
  have "returns (UpBlock_forward tr (up3 dec) y2 x1) w2
          (\<lambda>y w'. shape y = [n, feature_chns ps ! 1, 8 * a, 8 * b] \<and> calls w' = calls w2 \<and>
                   cat_skips (val y) = val x1 # cat_skips (val y2))"
    by (rule UpBlock_shape [OF u(4) t2 s1]) (use a b in auto)
  then obtain y3 w3 where r3: "UpBlock_forward tr (up3 dec) y2 x1 w2 = (Inr y3, w3)"
    and t3: "shape y3 = [n, feature_chns ps ! 1, 8 * a, 8 * b]" and c3: "calls w3 = calls w2"
    and k3: "cat_skips (val y3) = val x1 # cat_skips (val y2)"
    by (auto simp add: returns_iff)
  have "returns (UpBlock_forward tr (up4 dec) y3 x0) w3
          (\<lambda>y w'. shape y = [n, feature_chns ps ! 0, 16 * a, 16 * b] \<and> calls w' = calls w3 \<and>
                   cat_skips (val y) = val x0 # cat_skips (val y3))"
    by (rule UpBlock_shape [OF u(5) t3 s0]) (use a b in auto)
  then obtain y4 w4 where r4: "UpBlock_forward tr (up4 dec) y3 x0 w3 = (Inr y4, w4)"
    and t4: "shape y4 = [n, feature_chns ps ! 0, 16 * a, 16 * b]" and c4: "calls w4 = calls w3"
    and k4: "cat_skips (val y4) = val x0 # cat_skips (val y3)"
    by (auto simp add: returns_iff)
  have "Decoder_forward tr dec fs w0 =
          (Inr \<lparr>shape = [n, class_num ps, h, w], val = Apply (out_conv dec) (val y4)\<rparr>, w4)"
    using a b
    by (simp add: Decoder_forward_def andThen_def record_call_def ret_def lift_def index_def
          wa_def [symmetric] fs5 r1 r2 r3 r4 apply_layer_def u(6) t4)
  then show ?thesis
    by (simp add: returns_def fs5 c1 c2 c3 c4 k1 k2 k3 k4 wa_def)
qed

subsection \<open>Blocks of the V-Net\<close>

lemma andThen_assoc: "andThen (andThen m f) g = andThen m (\<lambda>a. andThen (f a) g)"
  by (rule ext) (simp add: andThen_def split: prod.splits sum.splits)

lemma andThen_ret_left: "andThen (ret a) f = f a"
  by (rule ext) (simp add: andThen_def ret_def)

lemma Sequential_append_run:
  "Sequential tr (ls @ ms) x w = andThen (Sequential tr ls x) (Sequential tr ms) w"
  by (induction ls arbitrary: x w)
     (simp_all add: andThen_def ret_def split: prod.splits sum.splits)

lemma Sequential_append:
  "Sequential tr (ls @ ms) x = andThen (Sequential tr ls x) (Sequential tr ms)"
  by (rule ext) (rule Sequential_append_run)

lemma returns_apply_ReLU:
  "returns (apply_layer tr ReLU x) w Q = Q \<lparr>shape = shape x, val = Apply ReLU (val x)\<rparr> w"
  by (simp add: apply_layer_def)

lemma returns_apply_GroupNorm:
  "returns (apply_layer tr (GroupNorm name g c) x) w Q =
     (case layer_shape tr (GroupNorm name g c) (shape x) of
        Inl e \<Rightarrow> False
      | Inr s \<Rightarrow> Q \<lparr>shape = s, val = Apply (GroupNorm name g c) (val x)\<rparr> w)"
  by (simp add: apply_layer_def split: sum.splits)

lemma returns_apply_InstanceNorm:
  "returns (apply_layer tr (InstanceNorm nd name c) x) w Q =
     (case layer_shape tr (InstanceNorm nd name c) (shape x) of
        Inl e \<Rightarrow> False
      | Inr s \<Rightarrow> Q \<lparr>shape = s, val = Apply (InstanceNorm nd name c) (val x)\<rparr> w)"
  by (simp add: apply_layer_def split: sum.splits)

lemma returns_apply_ConvTranspose:
  "returns (apply_layer tr (ConvTranspose nd name cin cout k st) x) w Q =
     (case layer_shape tr (ConvTranspose nd name cin cout k st) (shape x) of
        Inl e \<Rightarrow> False
      | Inr s \<Rightarrow> Q \<lparr>shape = s, val = Apply (ConvTranspose nd name cin cout k st) (val x)\<rparr> w)"
  by (simp add: apply_layer_def split: sum.splits)

lemmas returns_apply3 =
  returns_apply returns_apply_ReLU returns_apply_GroupNorm returns_apply_InstanceNorm
  returns_apply_ConvTranspose

text \<open>One stage of a block: a layer that sets the shape, the normalisation, a ReLU.\<close>

lemma norm_cases:
  obtains (b) "nrm = ''batchnorm''" | (g) "nrm = ''groupnorm''" | (i) "nrm = ''instancenorm''"
    | (n) "nrm = ''none''"
    | (bad) "nrm \<notin> {''none'', ''batchnorm'', ''groupnorm'', ''instancenorm''}"
  by auto

lemma ConvBlock_loop_shape:
  assumes "ConvBlock_loop name is cin cout nrm acc = Inr ops"
    and "0 \<in> set is \<longrightarrow> cin = cout"
    and "1 \<le> d" "1 \<le> h" "1 \<le> w"
    and "norm_ok tr nrm n cout [d, h, w]"
  shows "\<exists>new. ops = acc @ new \<and>
           (\<forall>x w0. shape x = [n, cout, d, h, w] \<longrightarrow>
              returns (Sequential tr new x) w0
                (\<lambda>y w'. shape y = [n, cout, d, h, w] \<and> calls w' = calls w0 \<and>
                         add_skips (val y) = add_skips (val x)))"
  using assms(1,2)
proof (induction "is" arbitrary: acc)
  case Nil
  then show ?case by simp
next
  case (Cons i rest)
  from Cons.prems(2) have i: "(if i = 0 then cin else cout) = cout"
    and rest: "0 \<in> set rest \<longrightarrow> cin = cout" by auto
  show ?case
  proof (cases rule: norm_cases [of nrm])
    case b
    let ?st = "[Conv 3 (name, length acc) cout cout 3 1 1,
                BatchNorm 3 (name, Suc (length acc)) cout, ReLU]"
    from Cons.prems(1) i b
    have "ConvBlock_loop name rest cin cout nrm (acc @ ?st) = Inr ops"
      by (simp add: Let_def bindE_def)
    from Cons.IH [OF this rest] obtain new where new: "ops = (acc @ ?st) @ new"
      and beh: "\<And>x w0. shape x = [n, cout, d, h, w] \<Longrightarrow>
              returns (Sequential tr new x) w0
                (\<lambda>y w'. shape y = [n, cout, d, h, w] \<and> calls w' = calls w0 \<and>
                         add_skips (val y) = add_skips (val x))"
      by blast
    have "returns (Sequential tr (?st @ new) x) w0
                (\<lambda>y w'. shape y = [n, cout, d, h, w] \<and> calls w' = calls w0 \<and>
                         add_skips (val y) = add_skips (val x))"
      if x: "shape x = [n, cout, d, h, w]" for x w0
      using assms(3-6) b x
      by (auto simp add: returns_apply3 norm_ok_def intro!: returns_mono [OF beh])
    with new show ?thesis by (intro exI [of _ "?st @ new"]) simp
  next
    case g
    let ?st = "[Conv 3 (name, length acc) cout cout 3 1 1,
                GroupNorm (name, Suc (length acc)) 16 cout, ReLU]"
    from Cons.prems(1) i g
    have "ConvBlock_loop name rest cin cout nrm (acc @ ?st) = Inr ops" and c16: "cout mod 16 = 0"
      by (auto simp add: Let_def bindE_def mk_groupnorm_def split: if_splits)
    from Cons.IH [OF this(1) rest] obtain new where new: "ops = (acc @ ?st) @ new"
      and beh: "\<And>x w0. shape x = [n, cout, d, h, w] \<Longrightarrow>
              returns (Sequential tr new x) w0
                (\<lambda>y w'. shape y = [n, cout, d, h, w] \<and> calls w' = calls w0 \<and>
                         add_skips (val y) = add_skips (val x))"
      by blast
    have "returns (Sequential tr (?st @ new) x) w0
                (\<lambda>y w'. shape y = [n, cout, d, h, w] \<and> calls w' = calls w0 \<and>
                         add_skips (val y) = add_skips (val x))"
      if x: "shape x = [n, cout, d, h, w]" for x w0
      using assms(3-6) g x c16
      by (auto simp add: returns_apply3 norm_ok_def intro!: returns_mono [OF beh])
    with new show ?thesis by (intro exI [of _ "?st @ new"]) simp
  next
    case i
    let ?st = "[Conv 3 (name, length acc) cout cout 3 1 1,
                InstanceNorm 3 (name, Suc (length acc)) cout, ReLU]"
    from Cons.prems(1) \<open>(if i = 0 then cin else cout) = cout\<close> i
    have "ConvBlock_loop name rest cin cout nrm (acc @ ?st) = Inr ops"
      by (simp add: Let_def bindE_def)
    from Cons.IH [OF this rest] obtain new where new: "ops = (acc @ ?st) @ new"
      and beh: "\<And>x w0. shape x = [n, cout, d, h, w] \<Longrightarrow>
              returns (Sequential tr new x) w0
                (\<lambda>y w'. shape y = [n, cout, d, h, w] \<and> calls w' = calls w0 \<and>
                         add_skips (val y) = add_skips (val x))"
      by blast
    have "returns (Sequential tr (?st @ new) x) w0
                (\<lambda>y w'. shape y = [n, cout, d, h, w] \<and> calls w' = calls w0 \<and>
                         add_skips (val y) = add_skips (val x))"
      if x: "shape x = [n, cout, d, h, w]" for x w0
      using assms(3-6) i x
      by (auto simp add: returns_apply3 norm_ok_def intro!: returns_mono [OF beh])
    with new show ?thesis by (intro exI [of _ "?st @ new"]) simp
  next
    case n
    let ?st = "[Conv 3 (name, length acc) cout cout 3 1 1, ReLU]"
    from Cons.prems(1) i n
    have "ConvBlock_loop name rest cin cout nrm (acc @ ?st) = Inr ops"
      by (simp add: Let_def bindE_def)
    from Cons.IH [OF this rest] obtain new where new: "ops = (acc @ ?st) @ new"
      and beh: "\<And>x w0. shape x = [n, cout, d, h, w] \<Longrightarrow>
              returns (Sequential tr new x) w0
                (\<lambda>y w'. shape y = [n, cout, d, h, w] \<and> calls w' = calls w0 \<and>
                         add_skips (val y) = add_skips (val x))"
      by blast
    have "returns (Sequential tr (?st @ new) x) w0
                (\<lambda>y w'. shape y = [n, cout, d, h, w] \<and> calls w' = calls w0 \<and>
                         add_skips (val y) = add_skips (val x))"
      if x: "shape x = [n, cout, d, h, w]" for x w0
      using assms(3-6) n x
      by (auto simp add: returns_apply3 norm_ok_def intro!: returns_mono [OF beh])
    with new show ?thesis by (intro exI [of _ "?st @ new"]) simp
  next
    case bad
    with Cons.prems(1) show ?thesis by (simp add: Let_def bindE_def)
  qed
qed


lemma vnet_ConvBlock_same_shape:
  assumes "vnet_ConvBlock name k c c nrm = Inr ops"
    and "shape x = [n, c, d, h, w]" and "1 \<le> d" "1 \<le> h" "1 \<le> w"
    and "norm_ok tr nrm n c [d, h, w]"
  shows "returns (Sequential tr ops x) w0
           (\<lambda>y w'. shape y = [n, c, d, h, w] \<and> calls w' = calls w0 \<and>
                    add_skips (val y) = add_skips (val x))"
  using ConvBlock_loop_shape [OF assms(1) [unfolded vnet_ConvBlock_def] _ assms(3-6)] assms(2)
  by auto

lemma vnet_ConvBlock_first_shape:
  assumes "vnet_ConvBlock name 1 cin cout nrm = Inr ops"
    and "shape x = [n, cin, d, h, w]" and "1 \<le> d" "1 \<le> h" "1 \<le> w"
    and "norm_ok tr nrm n cout [d, h, w]"
  shows "returns (Sequential tr ops x) w0
           (\<lambda>y w'. shape y = [n, cout, d, h, w] \<and> calls w' = calls w0 \<and>
                    add_skips (val y) = add_skips (val x))"
  using assms
  by (cases rule: norm_cases [of nrm])
     (auto simp add: vnet_ConvBlock_def Let_def bindE_def mk_groupnorm_def norm_ok_def
        returns_apply3 split: if_splits)

lemma DownsamplingConvBlock_shape:
  assumes "DownsamplingConvBlock name cin cout 2 nrm = Inr ops"
    and "shape x = [n, cin, d, h, w]" and "2 \<le> d" "2 \<le> h" "2 \<le> w"
    and "norm_ok tr nrm n cout [d div 2, h div 2, w div 2]"
  shows "returns (Sequential tr ops x) w0
           (\<lambda>y w'. shape y = [n, cout, d div 2, h div 2, w div 2] \<and> calls w' = calls w0)"
  using assms
  by (cases rule: norm_cases [of nrm])
     (auto simp add: DownsamplingConvBlock_def Let_def bindE_def mk_groupnorm_def norm_ok_def
        returns_apply3 split: if_splits)

lemma norm_ok_big: "2 \<le> d \<Longrightarrow> norm_ok tr nrm n c [d, h, w]"
  by (auto simp add: norm_ok_def)

lemma UpsamplingDeconvBlock_shape:
  assumes "UpsamplingDeconvBlock name cin cout 2 nrm = Inr ops"
    and "shape x = [n, cin, d, h, w]" and "1 \<le> d" "1 \<le> h" "1 \<le> w"
  shows "returns (Sequential tr ops x) w0
           (\<lambda>y w'. shape y = [n, cout, d * 2, h * 2, w * 2] \<and> calls w' = calls w0 \<and>
                    add_skips (val y) = add_skips (val x))"
proof -
  define D H W where "D = d * 2" and "H = h * 2" and "W = w * 2"
  have ok: "norm_ok tr nrm n cout [D, H, W]"
    by (rule norm_ok_big) (use assms(3) in \<open>simp add: D_def\<close>)
  define t where "t = \<lparr>shape = [n, cout, D, H, W],
                       val = Apply (ConvTranspose 3 (name, 0) cin cout 2 2) (val x)\<rparr>"
  have step: "apply_layer tr (ConvTranspose 3 (name, 0) cin cout 2 2) x w0 = (Inr t, w0)"
    using assms(2-5) by (auto simp add: apply_layer_def ret_def t_def D_def H_def W_def)
  from assms(1) obtain rest where ops: "ops = ConvTranspose 3 (name, 0) cin cout 2 2 # rest"
    and rest: "nrm = ''batchnorm'' \<and> rest = [BatchNorm 3 (name, 1) cout, ReLU] \<or>
               nrm = ''groupnorm'' \<and> cout mod 16 = 0 \<and> rest = [GroupNorm (name, 1) 16 cout, ReLU] \<or>
               nrm = ''instancenorm'' \<and> rest = [InstanceNorm 3 (name, 1) cout, ReLU] \<or>
               nrm = ''none'' \<and> rest = [ReLU]"
    by (cases rule: norm_cases [of nrm])
       (auto simp add: UpsamplingDeconvBlock_def Let_def bindE_def mk_groupnorm_def
          split: if_splits)
  have "returns (Sequential tr rest t) w0
          (\<lambda>y w'. shape y = [n, cout, D, H, W] \<and> calls w' = calls w0 \<and>
                   add_skips (val y) = add_skips (val x))"
    using rest ok by (auto simp add: norm_ok_def returns_apply3 t_def)
  moreover have "Sequential tr ops x w0 = Sequential tr rest t w0"
    by (simp add: ops andThen_def step)
  ultimately show ?thesis
    by (simp add: returns_def D_def H_def W_def)
qed


lemma broadcast_rev_same: "broadcast_rev xs xs = Some xs"
  by (induction xs) simp_all

lemma broadcast_same: "broadcast s s = Some s"
  by (simp add: broadcast_def broadcast_rev_same)

lemma add_same:
  "shape a = shape b \<Longrightarrow> add a b = Inr \<lparr>shape = shape b, val = Add (val a) (val b)\<rparr>"
  by (simp add: add_def broadcast_same)

lemma VNet_Inr:
  assumes "VNet nch ncl nf nrm hdrop pg pt = Inr m"
  shows "vnet_ConvBlock ''block_one'' 1 nch nf nrm = Inr (block_one m)"
    and "DownsamplingConvBlock ''block_one_dw'' nf (2 * nf) 2 nrm = Inr (block_one_dw m)"
    and "vnet_ConvBlock ''block_two'' 2 (nf * 2) (nf * 2) nrm = Inr (block_two m)"
    and "DownsamplingConvBlock ''block_two_dw'' (nf * 2) (nf * 4) 2 nrm = Inr (block_two_dw m)"
    and "vnet_ConvBlock ''block_three'' 3 (nf * 4) (nf * 4) nrm = Inr (block_three m)"
    and "DownsamplingConvBlock ''block_three_dw'' (nf * 4) (nf * 8) 2 nrm = Inr (block_three_dw m)"
    and "vnet_ConvBlock ''block_four'' 3 (nf * 8) (nf * 8) nrm = Inr (block_four m)"
    and "DownsamplingConvBlock ''block_four_dw'' (nf * 8) (nf * 16) 2 nrm = Inr (block_four_dw m)"
    and "vnet_ConvBlock ''block_five'' 3 (nf * 16) (nf * 16) nrm = Inr (block_five m)"
    and "UpsamplingDeconvBlock ''block_five_up'' (nf * 16) (nf * 8) 2 nrm = Inr (block_five_up m)"
    and "vnet_ConvBlock ''block_six'' 3 (nf * 8) (nf * 8) nrm = Inr (block_six m)"
    and "UpsamplingDeconvBlock ''block_six_up'' (nf * 8) (nf * 4) 2 nrm = Inr (block_six_up m)"
    and "vnet_ConvBlock ''block_seven'' 3 (nf * 4) (nf * 4) nrm = Inr (block_seven m)"
    and "UpsamplingDeconvBlock ''block_seven_up'' (nf * 4) (nf * 2) 2 nrm = Inr (block_seven_up m)"
    and "vnet_ConvBlock ''block_eight'' 2 (nf * 2) (nf * 2) nrm = Inr (block_eight m)"
    and "UpsamplingDeconvBlock ''block_eight_up'' (nf * 2) nf 2 nrm = Inr (block_eight_up m)"
    and "vnet_ConvBlock ''block_nine'' 1 nf nf nrm = Inr (block_nine m)"
    and "vnet_out_conv m = Conv 3 (''out_conv'', 0) nf ncl 1 1 0"
    and "vnet_dropout m = DropoutLayer Channelwise 0.5"
    and "training m = True"
    and "has_dropout m = hdrop"
  using assms by (auto simp add: VNet_def bindE_Inr_iff mk_dropout_def)


lemma returns_run: "m w = (Inr a, w') \<Longrightarrow> returns m w Q = Q a w'"
  by (simp add: returns_def)

lemma VNet_encoder_shape:
  assumes m: "VNet nch ncl nf nrm hdrop pg pt = Inr m"
    and x: "shape x = [n, nch, d, h, w]" and dims: "16 \<le> d" "16 \<le> h" "16 \<le> w"
    and ok: "norm_ok True nrm n (nf * 16) [d div 16, h div 16, w div 16]"
  shows "returns (VNet_encoder (m\<lparr>has_dropout := b\<rparr>) x) w0
           (\<lambda>fs w'. map shape fs = vnet_pyramid n nf d h w \<and>
                     calls w' = calls w0 @ [EncoderCall])"
proof -
  note u = VNet_Inr [OF m]
  let ?wa = "w0\<lparr>calls := calls w0 @ [EncoderCall]\<rparr>"
  have "returns (Sequential True (block_one m) x) ?wa (\<lambda>y w'. shape y = [n, nf, d, h, w] \<and> calls w' = calls ?wa \<and> add_skips (val y) = add_skips (val x))"
    by (rule vnet_ConvBlock_first_shape [OF u(1) x]) (use dims ok in \<open>auto simp add: div_chain intro: norm_ok_big\<close>)
  then obtain x1 w1 where r_x1: "Sequential True (block_one m) x ?wa = (Inr x1, w1)"
    and s_x1: "shape x1 = [n, nf, d, h, w]"
    and t_x1: "calls w1 = calls ?wa"
    by (auto simp add: returns_iff div_chain mult.commute)
  have "returns (Sequential True (block_one_dw m) x1) w1 (\<lambda>y w'. shape y = [n, 2 * nf, d div 2, h div 2, w div 2] \<and> calls w' = calls w1)"
    by (rule DownsamplingConvBlock_shape [OF u(2) s_x1]) (use dims ok in \<open>auto simp add: div_chain intro: norm_ok_big\<close>)
  then obtain x1d w2 where r_x1d: "Sequential True (block_one_dw m) x1 w1 = (Inr x1d, w2)"
    and s_x1d: "shape x1d = [n, nf * 2, d div 2, h div 2, w div 2]"
    and t_x1d: "calls w2 = calls w1"
    by (auto simp add: returns_iff div_chain mult.commute)
  have "returns (Sequential True (block_two m) x1d) w2 (\<lambda>y w'. shape y = [n, nf * 2, d div 2, h div 2, w div 2] \<and> calls w' = calls w2 \<and> add_skips (val y) = add_skips (val x1d))"
    by (rule vnet_ConvBlock_same_shape [OF u(3) s_x1d]) (use dims ok in \<open>auto simp add: div_chain intro: norm_ok_big\<close>)
  then obtain x2 w3 where r_x2: "Sequential True (block_two m) x1d w2 = (Inr x2, w3)"
    and s_x2: "shape x2 = [n, nf * 2, d div 2, h div 2, w div 2]"
    and t_x2: "calls w3 = calls w2"
    by (auto simp add: returns_iff div_chain mult.commute)
  have "returns (Sequential True (block_two_dw m) x2) w3 (\<lambda>y w'. shape y = [n, nf * 4, d div 2 div 2, h div 2 div 2, w div 2 div 2] \<and> calls w' = calls w3)"
    by (rule DownsamplingConvBlock_shape [OF u(4) s_x2]) (use dims ok in \<open>auto simp add: div_chain intro: norm_ok_big\<close>)
  then obtain x2d w4 where r_x2d: "Sequential True (block_two_dw m) x2 w3 = (Inr x2d, w4)"
    and s_x2d: "shape x2d = [n, nf * 4, d div 4, h div 4, w div 4]"
    and t_x2d: "calls w4 = calls w3"
    by (auto simp add: returns_iff div_chain mult.commute)
  have "returns (Sequential True (block_three m) x2d) w4 (\<lambda>y w'. shape y = [n, nf * 4, d div 4, h div 4, w div 4] \<and> calls w' = calls w4 \<and> add_skips (val y) = add_skips (val x2d))"
    by (rule vnet_ConvBlock_same_shape [OF u(5) s_x2d]) (use dims ok in \<open>auto simp add: div_chain intro: norm_ok_big\<close>)
  then obtain x3 w5 where r_x3: "Sequential True (block_three m) x2d w4 = (Inr x3, w5)"
    and s_x3: "shape x3 = [n, nf * 4, d div 4, h div 4, w div 4]"
    and t_x3: "calls w5 = calls w4"
    by (auto simp add: returns_iff div_chain mult.commute)
  have "returns (Sequential True (block_three_dw m) x3) w5 (\<lambda>y w'. shape y = [n, nf * 8, d div 4 div 2, h div 4 div 2, w div 4 div 2] \<and> calls w' = calls w5)"
    by (rule DownsamplingConvBlock_shape [OF u(6) s_x3]) (use dims ok in \<open>auto simp add: div_chain intro: norm_ok_big\<close>)
  then obtain x3d w6 where r_x3d: "Sequential True (block_three_dw m) x3 w5 = (Inr x3d, w6)"
    and s_x3d: "shape x3d = [n, nf * 8, d div 8, h div 8, w div 8]"
    and t_x3d: "calls w6 = calls w5"
    by (auto simp add: returns_iff div_chain mult.commute)
  have "returns (Sequential True (block_four m) x3d) w6 (\<lambda>y w'. shape y = [n, nf * 8, d div 8, h div 8, w div 8] \<and> calls w' = calls w6 \<and> add_skips (val y) = add_skips (val x3d))"
    by (rule vnet_ConvBlock_same_shape [OF u(7) s_x3d]) (use dims ok in \<open>auto simp add: div_chain intro: norm_ok_big\<close>)
  then obtain x4 w7 where r_x4: "Sequential True (block_four m) x3d w6 = (Inr x4, w7)"
    and s_x4: "shape x4 = [n, nf * 8, d div 8, h div 8, w div 8]"
    and t_x4: "calls w7 = calls w6"
    by (auto simp add: returns_iff div_chain mult.commute)
  have "returns (Sequential True (block_four_dw m) x4) w7 (\<lambda>y w'. shape y = [n, nf * 16, d div 8 div 2, h div 8 div 2, w div 8 div 2] \<and> calls w' = calls w7)"
    by (rule DownsamplingConvBlock_shape [OF u(8) s_x4]) (use dims ok in \<open>auto simp add: div_chain intro: norm_ok_big\<close>)
  then obtain x4d w8 where r_x4d: "Sequential True (block_four_dw m) x4 w7 = (Inr x4d, w8)"
    and s_x4d: "shape x4d = [n, nf * 16, d div 16, h div 16, w div 16]"
    and t_x4d: "calls w8 = calls w7"
    by (auto simp add: returns_iff div_chain mult.commute)
  have "returns (Sequential True (block_five m) x4d) w8 (\<lambda>y w'. shape y = [n, nf * 16, d div 16, h div 16, w div 16] \<and> calls w' = calls w8 \<and> add_skips (val y) = add_skips (val x4d))"
    by (rule vnet_ConvBlock_same_shape [OF u(9) s_x4d]) (use dims ok in \<open>auto simp add: div_chain intro: norm_ok_big\<close>)
  then obtain x5 w9 where r_x5: "Sequential True (block_five m) x4d w8 = (Inr x5, w9)"
    and s_x5: "shape x5 = [n, nf * 16, d div 16, h div 16, w div 16]"
    and t_x5: "calls w9 = calls w8"
    by (auto simp add: returns_iff div_chain mult.commute)
  show ?thesis
    by (simp add: VNet_encoder_def u(19,20) returns_def andThen_def record_call_def ret_def
          apply_layer_def fresh_def vnet_pyramid_def
          r_x1 r_x1d r_x2 r_x2d r_x3 r_x3d r_x4 r_x4d r_x5
          s_x1 s_x2 s_x3 s_x4 s_x5 t_x1 t_x1d t_x2 t_x2d t_x3 t_x3d t_x4 t_x4d t_x5)
qed


lemma VNet_decoder_shape:
  assumes m: "VNet nch ncl nf nrm hdrop pg pt = Inr m"
    and fs: "map shape fs = vnet_pyramid n nf d h w"
    and dims: "16 dvd d" "0 < d" "16 dvd h" "0 < h" "16 dvd w" "0 < w"
  shows "returns (VNet_decoder (m\<lparr>has_dropout := hb\<rparr>) fs no_drop) w0
           (\<lambda>y w'. shape y = [n, ncl, d, h, w] \<and> calls w' = calls w0 @ [DecoderCall] \<and>
                    add_skips (val y) = [val (fs ! 0), val (fs ! 1), val (fs ! 2), val (fs ! 3)]
                                      @ add_skips (val (fs ! 4)))"
proof -
  note u = VNet_Inr [OF m]
  from fs have "length fs = 5"
    using length_map [of shape fs] by (simp add: vnet_pyramid_def)
  then obtain x1 x2 x3 x4 x5 where fs5: "fs = [x1, x2, x3, x4, x5]"
    by (rule length5E)
  from dims obtain a b c where abc: "d = a * 16" "h = b * 16" "w = c * 16"
    and ab: "1 \<le> a" "1 \<le> b" "1 \<le> c"
    by (auto elim!: dvdE simp add: mult.commute)
  from fs have s_x1: "shape x1 = [n, nf, a * 16, b * 16, c * 16]"
    and s_x2: "shape x2 = [n, nf * 2, a * 8, b * 8, c * 8]"
    and s_x3: "shape x3 = [n, nf * 4, a * 4, b * 4, c * 4]"
    and s_x4: "shape x4 = [n, nf * 8, a * 2, b * 2, c * 2]"
    and s_x5: "shape x5 = [n, nf * 16, a, b, c]"
    by (simp_all add: fs5 vnet_pyramid_def abc)
  let ?wa = "w0\<lparr>calls := calls w0 @ [DecoderCall]\<rparr>"
  have "shape x5 = [n, nf * 16, a, b, c]"
    by (simp add: s_x5)
  then have "returns (Sequential True (block_five_up m) x5) ?wa (\<lambda>y w'. shape y = [n, nf * 8, a * 2, b * 2, c * 2] \<and> calls w' = calls ?wa \<and> add_skips (val y) = add_skips (val x5))"
    by (rule UpsamplingDeconvBlock_shape [OF u(10)]) (use ab in \<open>auto intro: norm_ok_big\<close>)
  then obtain y5 w1 where r_y5: "Sequential True (block_five_up m) x5 ?wa = (Inr y5, w1)"
    and s_y5: "shape y5 = [n, nf * 8, a * 2, b * 2, c * 2]"
    and t_y5: "calls w1 = calls ?wa"
    and k_y5: "add_skips (val y5) = add_skips (val x5)"
    by (auto simp add: returns_iff)
  define z5 where "z5 = \<lparr>shape = shape x4, val = Add (val y5) (val x4)\<rparr>"
  have r_z5: "add y5 x4 = Inr z5"
    unfolding z5_def by (rule add_same) (simp add: s_y5 s_x4)
  have s_z5: "shape z5 = shape x4" and k_z5: "add_skips (val z5) = val x4 # add_skips (val y5)"
    by (simp_all add: z5_def)
  have "shape z5 = [n, nf * 8, a * 2, b * 2, c * 2]"
    by (simp add: s_z5 s_x4)
  then have "returns (Sequential True (block_six m) z5) w1 (\<lambda>y w'. shape y = [n, nf * 8, a * 2, b * 2, c * 2] \<and> calls w' = calls w1 \<and> add_skips (val y) = add_skips (val z5))"
    by (rule vnet_ConvBlock_same_shape [OF u(11)]) (use ab in \<open>auto intro: norm_ok_big\<close>)
  then obtain x6 w2 where r_x6: "Sequential True (block_six m) z5 w1 = (Inr x6, w2)"
    and s_x6: "shape x6 = [n, nf * 8, a * 2, b * 2, c * 2]"
    and t_x6: "calls w2 = calls w1"
    and k_x6: "add_skips (val x6) = add_skips (val z5)"
    by (auto simp add: returns_iff)
  have "shape x6 = [n, nf * 8, a * 2, b * 2, c * 2]"
    by (simp add: s_x6)
  then have "returns (Sequential True (block_six_up m) x6) w2 (\<lambda>y w'. shape y = [n, nf * 4, a * 2 * 2, b * 2 * 2, c * 2 * 2] \<and> calls w' = calls w2 \<and> add_skips (val y) = add_skips (val x6))"
    by (rule UpsamplingDeconvBlock_shape [OF u(12)]) (use ab in \<open>auto intro: norm_ok_big\<close>)
  then obtain y6 w3 where r_y6: "Sequential True (block_six_up m) x6 w2 = (Inr y6, w3)"
    and s_y6: "shape y6 = [n, nf * 4, a * 4, b * 4, c * 4]"
    and t_y6: "calls w3 = calls w2"
    and k_y6: "add_skips (val y6) = add_skips (val x6)"
    by (auto simp add: returns_iff)
  define z6 where "z6 = \<lparr>shape = shape x3, val = Add (val y6) (val x3)\<rparr>"
  have r_z6: "add y6 x3 = Inr z6"
    unfolding z6_def by (rule add_same) (simp add: s_y6 s_x3)
  have s_z6: "shape z6 = shape x3" and k_z6: "add_skips (val z6) = val x3 # add_skips (val y6)"
    by (simp_all add: z6_def)
  have "shape z6 = [n, nf * 4, a * 4, b * 4, c * 4]"
    by (simp add: s_z6 s_x3)
  then have "returns (Sequential True (block_seven m) z6) w3 (\<lambda>y w'. shape y = [n, nf * 4, a * 4, b * 4, c * 4] \<and> calls w' = calls w3 \<and> add_skips (val y) = add_skips (val z6))"
    by (rule vnet_ConvBlock_same_shape [OF u(13)]) (use ab in \<open>auto intro: norm_ok_big\<close>)
  then obtain x7 w4 where r_x7: "Sequential True (block_seven m) z6 w3 = (Inr x7, w4)"
    and s_x7: "shape x7 = [n, nf * 4, a * 4, b * 4, c * 4]"
    and t_x7: "calls w4 = calls w3"
    and k_x7: "add_skips (val x7) = add_skips (val z6)"
    by (auto simp add: returns_iff)
  have "shape x7 = [n, nf * 4, a * 4, b * 4, c * 4]"
    by (simp add: s_x7)
  then have "returns (Sequential True (block_seven_up m) x7) w4 (\<lambda>y w'. shape y = [n, nf * 2, a * 4 * 2, b * 4 * 2, c * 4 * 2] \<and> calls w' = calls w4 \<and> add_skips (val y) = add_skips (val x7))"
    by (rule UpsamplingDeconvBlock_shape [OF u(14)]) (use ab in \<open>auto intro: norm_ok_big\<close>)
  then obtain y7 w5 where r_y7: "Sequential True (block_seven_up m) x7 w4 = (Inr y7, w5)"
    and s_y7: "shape y7 = [n, nf * 2, a * 8, b * 8, c * 8]"
    and t_y7: "calls w5 = calls w4"
    and k_y7: "add_skips (val y7) = add_skips (val x7)"
    by (auto simp add: returns_iff)
  define z7 where "z7 = \<lparr>shape = shape x2, val = Add (val y7) (val x2)\<rparr>"
  have r_z7: "add y7 x2 = Inr z7"
    unfolding z7_def by (rule add_same) (simp add: s_y7 s_x2)
  have s_z7: "shape z7 = shape x2" and k_z7: "add_skips (val z7) = val x2 # add_skips (val y7)"
    by (simp_all add: z7_def)
  have "shape z7 = [n, nf * 2, a * 8, b * 8, c * 8]"
    by (simp add: s_z7 s_x2)
  then have "returns (Sequential True (block_eight m) z7) w5 (\<lambda>y w'. shape y = [n, nf * 2, a * 8, b * 8, c * 8] \<and> calls w' = calls w5 \<and> add_skips (val y) = add_skips (val z7))"
    by (rule vnet_ConvBlock_same_shape [OF u(15)]) (use ab in \<open>auto intro: norm_ok_big\<close>)
  then obtain x8 w6 where r_x8: "Sequential True (block_eight m) z7 w5 = (Inr x8, w6)"
    and s_x8: "shape x8 = [n, nf * 2, a * 8, b * 8, c * 8]"
    and t_x8: "calls w6 = calls w5"
    and k_x8: "add_skips (val x8) = add_skips (val z7)"
    by (auto simp add: returns_iff)
  have "shape x8 = [n, nf * 2, a * 8, b * 8, c * 8]"
    by (simp add: s_x8)
  then have "returns (Sequential True (block_eight_up m) x8) w6 (\<lambda>y w'. shape y = [n, nf, a * 8 * 2, b * 8 * 2, c * 8 * 2] \<and> calls w' = calls w6 \<and> add_skips (val y) = add_skips (val x8))"
    by (rule UpsamplingDeconvBlock_shape [OF u(16)]) (use ab in \<open>auto intro: norm_ok_big\<close>)
  then obtain y8 w7 where r_y8: "Sequential True (block_eight_up m) x8 w6 = (Inr y8, w7)"
    and s_y8: "shape y8 = [n, nf, a * 16, b * 16, c * 16]"
    and t_y8: "calls w7 = calls w6"
    and k_y8: "add_skips (val y8) = add_skips (val x8)"
    by (auto simp add: returns_iff)
  define z8 where "z8 = \<lparr>shape = shape x1, val = Add (val y8) (val x1)\<rparr>"
  have r_z8: "add y8 x1 = Inr z8"
    unfolding z8_def by (rule add_same) (simp add: s_y8 s_x1)
  have s_z8: "shape z8 = shape x1" and k_z8: "add_skips (val z8) = val x1 # add_skips (val y8)"
    by (simp_all add: z8_def)
  have "shape z8 = [n, nf, a * 16, b * 16, c * 16]"
    by (simp add: s_z8 s_x1)
  then have "returns (Sequential True (block_nine m) z8) w7 (\<lambda>y w'. shape y = [n, nf, a * 16, b * 16, c * 16] \<and> calls w' = calls w7 \<and> add_skips (val y) = add_skips (val z8))"
    by (rule vnet_ConvBlock_same_shape [OF u(17)]) (use ab in \<open>auto intro: norm_ok_big\<close>)
  then obtain x9 w8 where r_x9: "Sequential True (block_nine m) z8 w7 = (Inr x9, w8)"
    and s_x9: "shape x9 = [n, nf, a * 16, b * 16, c * 16]"
    and t_x9: "calls w8 = calls w7"
    and k_x9: "add_skips (val x9) = add_skips (val z8)"
    by (auto simp add: returns_iff)
  show ?thesis
    using ab
    by (simp add: VNet_decoder_def u(18,19,20) returns_def andThen_def record_call_def ret_def
          lift_def index_def apply_layer_def fresh_def fs5 abc
          r_y5 r_z5 r_x6 r_y6 r_z6 r_x7 r_y7 r_z7 r_x8 r_y8 r_z8 r_x9
          s_x9 t_y5 t_x6 t_y6 t_x7 t_y7 t_x8 t_y8 t_x9 k_y5 k_z5 k_x6 k_y6 k_z6 k_x7 k_y7 k_z7 k_x8 k_y8 k_z8 k_x9)
qed

subsection \<open>What every layer preserves\<close>

lemma subexpr_refl [simp]: "subexpr a a"
  by (cases a) simp_all

lemma subexpr_trans: "subexpr a b \<Longrightarrow> subexpr b c \<Longrightarrow> subexpr a c"
  by (induction c) auto

lemma those_dims_length: "those_dims xs = Some ys \<Longrightarrow> length ys = length xs"
proof (induction xs arbitrary: ys)
  case Nil
  then show ?case by simp
next
  case (Cons x xs)
  then show ?case by (cases x) (auto split: option.splits)
qed

lemma layer_shape_keeps:
  assumes "layer_shape tr l s = Inr s'"
  shows "length s' = length s \<and> (case s of [] \<Rightarrow> s' = [] | n # t \<Rightarrow> \<exists>t'. s' = n # t')"
proof (cases s)
  case Nil
  with assms show ?thesis by (cases l) auto
next
  case (Cons n t)
  show ?thesis
  proof (cases t)
    case Nil
    with assms Cons show ?thesis by (cases l) auto
  next
    case (Cons c sp)
    with assms \<open>s = n # t\<close> show ?thesis
      by (cases l) (auto split: if_splits option.splits dest: those_dims_length)
  qed
qed

lemma apply_layer_keeps:
  assumes "apply_layer tr l x w = (Inr y, w')"
  shows "rank y = rank x" and "batch y = batch x" and "subexpr (val x) (val y)"
    and "cat_skips (val y) = cat_skips (val x)" and "add_skips (val y) = add_skips (val x)"
proof -
  have "rank y = rank x \<and> batch y = batch x \<and> subexpr (val x) (val y) \<and>
        cat_skips (val y) = cat_skips (val x) \<and> add_skips (val y) = add_skips (val x)"
  proof (cases "\<exists>kind p. l = DropoutLayer kind p")
    case True
    with assms show ?thesis
      by (auto simp add: apply_layer_def andThen_def fresh_def ret_def rank_def batch_def
          split: if_splits)
  next
    case False
    with assms obtain s where s: "layer_shape tr l (shape x) = Inr s"
      and y: "y = \<lparr>shape = s, val = Apply l (val x)\<rparr>"
      by (cases l) (auto simp add: apply_layer_def ret_def raise_def split: sum.splits)
    from layer_shape_keeps [OF s] show ?thesis
      by (auto simp add: y rank_def batch_def split: list.splits)
  qed
  then show "rank y = rank x" and "batch y = batch x" and "subexpr (val x) (val y)"
    and "cat_skips (val y) = cat_skips (val x)" and "add_skips (val y) = add_skips (val x)"
    by simp_all
qed

lemma apply_layer_calls: "apply_layer tr l x w = (r, w') \<Longrightarrow> calls w' = calls w"
  by (cases l)
     (auto simp add: apply_layer_def andThen_def fresh_def ret_def raise_def
        split: if_splits sum.splits)

lemma Sequential_keeps:
  assumes "Sequential tr ls x w = (Inr y, w')"
  shows "rank y = rank x" and "batch y = batch x" and "subexpr (val x) (val y)"
    and "cat_skips (val y) = cat_skips (val x)" and "add_skips (val y) = add_skips (val x)"
proof -
  have "rank y = rank x \<and> batch y = batch x \<and> subexpr (val x) (val y) \<and>
        cat_skips (val y) = cat_skips (val x) \<and> add_skips (val y) = add_skips (val x)"
    using assms
  proof (induction ls arbitrary: x w)
    case Nil
    then show ?case by (simp add: ret_def)
  next
    case (Cons l ls)
    from Cons.prems obtain z w1 where z: "apply_layer tr l x w = (Inr z, w1)"
      and rest: "Sequential tr ls z w1 = (Inr y, w')"
      by (auto simp add: andThen_Inr)
    from Cons.IH [OF rest] apply_layer_keeps [OF z] show ?case
      by (auto intro: subexpr_trans)
  qed
  then show "rank y = rank x" and "batch y = batch x" and "subexpr (val x) (val y)"
    and "cat_skips (val y) = cat_skips (val x)" and "add_skips (val y) = add_skips (val x)"
    by simp_all
qed

lemma Sequential_calls: "Sequential tr ls x w = (r, w') \<Longrightarrow> calls w' = calls w"
proof (induction ls arbitrary: x w)
  case Nil
  then show ?case by (simp add: ret_def)
next
  case (Cons l ls)
  from Cons.prems show ?case
    by (auto elim!: andThen_cases dest!: apply_layer_calls Cons.IH)
qed

subsection \<open>Which computations call the encoder and the decoder\<close>

lemma silentD: "silent m \<Longrightarrow> m w = (r, w') \<Longrightarrow> calls w' = calls w"
  by (auto simp add: silent_def dest: spec [of _ w])

lemma silent_ret [simp]: "silent (ret a)"
  by (simp add: silent_def ret_def)

lemma silent_raise [simp]: "silent (raise e)"
  by (simp add: silent_def raise_def)

lemma silent_lift [simp]: "silent (lift r)"
  by (simp add: silent_def lift_def)

lemma silent_fresh [simp]: "silent fresh"
  by (simp add: silent_def fresh_def)

lemma silent_andThen:
  assumes "silent m" and "\<And>a. silent (f a)"
  shows "silent (andThen m f)"
  unfolding silent_def
proof
  fix w
  show "calls (snd (andThen m f w)) = calls w"
  proof (cases "m w")
    case (Pair r w1)
    with assms(1) have c: "calls w1 = calls w" by (blast dest: silentD)
    show ?thesis
    proof (cases r)
      case (Inl e)
      with Pair c show ?thesis by (simp add: andThen_def)
    next
      case (Inr a)
      from assms(2) [of a] have "calls (snd (f a w1)) = calls w1" by (simp add: silent_def)
      with Pair Inr c show ?thesis by (simp add: andThen_def)
    qed
  qed
qed

lemma silent_if: "silent a \<Longrightarrow> silent b \<Longrightarrow> silent (if c then a else b)"
  by simp

lemma silent_apply_layer [simp]: "silent (apply_layer tr l x)"
  unfolding silent_def
proof
  fix w
  show "calls (snd (apply_layer tr l x w)) = calls w"
    using apply_layer_calls [of tr l x w] by (cases "apply_layer tr l x w") simp
qed

lemma silent_Sequential [simp]: "silent (Sequential tr ls x)"
  unfolding silent_def
proof
  fix w
  show "calls (snd (Sequential tr ls x w)) = calls w"
    using Sequential_calls [of tr ls x w] by (cases "Sequential tr ls x w") simp
qed

lemma silent_mapM:
  assumes "\<And>x. silent (f x)"
  shows "silent (mapM f xs)"
  by (induction xs) (auto intro!: silent_andThen assms)

lemma silent_rand_mask [simp]: "silent (rand_mask f p)"
  unfolding rand_mask_def by (intro silent_andThen) simp_all

lemma silent_split_halves [simp]: "silent (split_halves fs)"
proof (induction fs)
  case Nil
  show ?case by simp
next
  case (Cons f fs)
  show ?case
    by (auto intro!: silent_andThen Cons split: list.splits prod.splits)
qed

lemma silent_perturb [simp]: "silent (perturb p fs1 fs2)"
proof (induction p fs1 fs2 rule: perturb.induct)
  case (1 p f1 r1 f2 r2)
  show ?case
    by (auto intro!: silent_andThen 1 split: prod.splits)
qed simp_all

lemma silent_UpBlock_forward [simp]: "silent (UpBlock_forward tr ub x1 x2)"
  unfolding UpBlock_forward_def
  by (auto intro!: silent_andThen split: option.splits)

lemma record_then:
  assumes "silent m" and "andThen (record_call c) (\<lambda>_. m) w = (r, w')"
  shows "calls w' = calls w @ [c]"
  using assms(2) silentD [OF assms(1), of "w\<lparr>calls := calls w @ [c]\<rparr>"]
  by (simp add: andThen_def record_call_def)

lemma Encoder_forward_calls:
  "Encoder_forward tr enc x w = (r, w') \<Longrightarrow> calls w' = calls w @ [EncoderCall]"
  unfolding Encoder_forward_def
  by (erule record_then [rotated]) (intro silent_andThen silent_Sequential silent_ret)

lemma Decoder_forward_calls:
  "Decoder_forward tr dec fs w = (r, w') \<Longrightarrow> calls w' = calls w @ [DecoderCall]"
  unfolding Decoder_forward_def
  by (erule record_then [rotated])
     (intro silent_andThen silent_lift silent_UpBlock_forward silent_apply_layer)

lemma VNet_encoder_calls:
  "VNet_encoder self x w = (r, w') \<Longrightarrow> calls w' = calls w @ [EncoderCall]"
  unfolding VNet_encoder_def
  by (erule record_then [rotated])
     (intro silent_andThen silent_Sequential silent_ret silent_if silent_apply_layer)

lemma VNet_decoder_calls:
  "VNet_decoder self fs no_drop w = (r, w') \<Longrightarrow> calls w' = calls w @ [DecoderCall]"
  unfolding VNet_decoder_def
  by (erule record_then [rotated])
     (intro silent_andThen silent_Sequential silent_ret silent_if silent_apply_layer silent_lift)

lemma decodesD: "decodes m \<Longrightarrow> m w = (r, w') \<Longrightarrow> \<exists>j. calls w' = calls w @ replicate j DecoderCall"
  by (auto simp add: decodes_def dest: spec [of _ w])

lemma silent_decodes: "silent m \<Longrightarrow> decodes m"
  unfolding silent_def decodes_def by (auto intro: exI [of _ 0])

lemma decodes_Decoder_forward [simp]: "decodes (Decoder_forward tr dec fs)"
  unfolding decodes_def
proof
  fix w
  show "\<exists>j. calls (snd (Decoder_forward tr dec fs w)) = calls w @ replicate j DecoderCall"
    using Decoder_forward_calls [of tr dec fs w]
    by (cases "Decoder_forward tr dec fs w") (auto intro: exI [of _ 1])
qed

lemma decodes_VNet_decoder [simp]: "decodes (VNet_decoder self fs no_drop)"
  unfolding decodes_def
proof
  fix w
  show "\<exists>j. calls (snd (VNet_decoder self fs no_drop w)) = calls w @ replicate j DecoderCall"
    using VNet_decoder_calls [of self fs no_drop w]
    by (cases "VNet_decoder self fs no_drop w") (auto intro: exI [of _ 1])
qed

lemma decodes_andThen:
  assumes "decodes m" and "\<And>a. decodes (f a)"
  shows "decodes (andThen m f)"
  unfolding decodes_def
proof
  fix w
  show "\<exists>j. calls (snd (andThen m f w)) = calls w @ replicate j DecoderCall"
  proof (cases "m w")
    case (Pair r w1)
    with assms(1) obtain j where c: "calls w1 = calls w @ replicate j DecoderCall"
      by (blast dest: decodesD)
    show ?thesis
    proof (cases r)
      case (Inl e)
      with Pair c show ?thesis by (auto simp add: andThen_def)
    next
      case (Inr a)
      from assms(2) [of a] obtain k where "calls (snd (f a w1)) = calls w1 @ replicate k DecoderCall"
        by (auto simp add: decodes_def)
      with Pair Inr c have "calls (snd (andThen m f w)) = calls w @ replicate (j + k) DecoderCall"
        by (simp add: andThen_def replicate_add)
      then show ?thesis by blast
    qed
  qed
qed

subsection \<open>The paths through \<open>forward\<close>\<close>

lemma count_replicate_other: "a \<noteq> b \<Longrightarrow> count_list (replicate j a) b = 0"
  by (induction j) simp_all

lemma count_replicate_same: "count_list (replicate j a) a = j"
  by (induction j) simp_all

lemma decodes_case_prod: "(\<And>a b. decodes (f a b)) \<Longrightarrow> decodes (case_prod f p)"
  by (cases p) simp

lemma decodes_silent_parts [simp]:
  "decodes (ret a)" "decodes (lift r)" "decodes (split_halves fs)" "decodes (perturb p fs1 fs2)"
  by (simp_all add: silent_decodes)

lemma decodes_UNet_forward_normal: "decodes (UNet_forward_normal self feature)"
  unfolding UNet_forward_normal_def
  by (intro decodes_andThen decodes_Decoder_forward decodes_silent_parts)
     (intro silent_decodes silent_mapM silent_andThen silent_apply_layer silent_lift)

lemma decodes_UNet_forward_strong: "decodes (UNet_forward_strong self feature)"
  unfolding UNet_forward_strong_def
  by (intro decodes_andThen decodes_Decoder_forward decodes_silent_parts decodes_case_prod)

lemma decodes_VNet_forward_normal: "decodes (VNet_forward_normal self features)"
  unfolding VNet_forward_normal_def
  by (intro decodes_andThen decodes_VNet_decoder decodes_silent_parts)
     (auto intro!: silent_decodes silent_mapM)

lemma decodes_VNet_forward_strong: "decodes (VNet_forward_strong self features)"
  unfolding VNet_forward_strong_def
  by (intro decodes_andThen decodes_VNet_decoder decodes_silent_parts decodes_case_prod)

lemma UNet_forward_trace:
  "\<exists>j. calls (snd (UNet_forward self x need_fp input_type w)) =
         calls w @ EncoderCall # replicate j DecoderCall"
proof (cases "Encoder_forward (unet_training self) (unet_encoder self) x w")
  case (Pair r w1)
  then have c: "calls w1 = calls w @ [EncoderCall]" by (rule Encoder_forward_calls)
  show ?thesis
  proof (cases r)
    case (Inl e)
    with Pair c show ?thesis
      by (auto simp add: UNet_forward_def andThen_def intro: exI [of _ 0])
  next
    case (Inr feature)
    let ?rest = "if need_fp \<and> input_type = ''normal'' then UNet_forward_normal self feature
       else if need_fp \<and> input_type = ''strong'' then UNet_forward_strong self feature
       else
         andThen (Decoder_forward (unet_training self) (unet_decoder self) feature) (\<lambda>output.
           ret (Single output))"
    have "decodes ?rest"
      by (auto intro!: decodes_UNet_forward_normal decodes_UNet_forward_strong decodes_andThen)
    then obtain j where "calls (snd (?rest w1)) = calls w1 @ replicate j DecoderCall"
      by (auto simp add: decodes_def)
    moreover have "UNet_forward self x need_fp input_type w = ?rest w1"
      by (simp add: UNet_forward_def andThen_def Pair Inr)
    ultimately show ?thesis using c by auto
  qed
qed

lemma VNet_forward_trace:
  "\<exists>j. calls (snd (snd (VNet_forward self x turnoff_drop need_fp input_type w))) =
         calls w @ EncoderCall # replicate j DecoderCall"
proof -
  define self1 where "self1 = (if turnoff_drop then self\<lparr>has_dropout := False\<rparr> else self)"
  show ?thesis
  proof (cases "VNet_encoder self1 x w")
    case (Pair r w1)
    then have c: "calls w1 = calls w @ [EncoderCall]" by (rule VNet_encoder_calls)
    show ?thesis
    proof (cases r)
      case (Inl e)
      with Pair c show ?thesis
        by (auto simp add: VNet_forward_def Let_def self1_def [symmetric] intro: exI [of _ 0])
    next
      case (Inr features)
      let ?rest = "if need_fp \<and> input_type = ''normal'' then VNet_forward_normal self1 features
         else if need_fp \<and> input_type = ''strong'' then VNet_forward_strong self1 features
         else andThen (VNet_decoder self1 features False) (\<lambda>out. ret (Single out))"
      have "decodes ?rest"
        by (auto intro!: decodes_VNet_forward_normal decodes_VNet_forward_strong decodes_andThen)
      then obtain j where "calls (snd (?rest w1)) = calls w1 @ replicate j DecoderCall"
        by (auto simp add: decodes_def)
      moreover have "snd (snd (VNet_forward self x turnoff_drop need_fp input_type w)) = snd (?rest w1)"
        by (simp add: VNet_forward_def Let_def self1_def [symmetric] Pair Inr andThen_def ret_def
              split: prod.splits sum.splits)
      ultimately show ?thesis using c by auto
    qed
  qed
qed


lemma lift_Inr: "lift x w = (Inr a, w') \<longleftrightarrow> x = Inr a \<and> w' = w"
  by (auto simp add: lift_def)

lemma UNet_forward_strong_Inr:
  assumes "UNet_forward_strong self feature w1 = (Inr r, w')"
  shows "\<exists>features1 features2 w2 weak strong complete w3 p1 p2 p3 p4 p5 w4 w5 w6 w7.
           split_halves feature w1 = (Inr (features1, features2), w2) \<and>
           perturb 0.7 features1 features2 w2 = (Inr (weak, strong, complete), w3) \<and>
           Decoder_forward (unet_training self) (unet_decoder self) features1 w3 = (Inr p1, w4) \<and>
           Decoder_forward (unet_training self) (unet_decoder self) features2 w4 = (Inr p2, w5) \<and>
           Decoder_forward (unet_training self) (unet_decoder self) weak w5 = (Inr p3, w6) \<and>
           Decoder_forward (unet_training self) (unet_decoder self) strong w6 = (Inr p4, w7) \<and>
           Decoder_forward (unet_training self) (unet_decoder self) complete w7 = (Inr p5, w') \<and>
           r = Tuple [p1, p2, p3, p4, p5]"
  using assms unfolding UNet_forward_strong_def
  by (auto simp add: andThen_Inr ret_eq split: prod.splits)

lemma VNet_forward_strong_Inr:
  assumes "VNet_forward_strong self features w1 = (Inr r, w')"
  shows "\<exists>features1 features2 w2 weak strong complete w3 p1 p2 p3 p4 p5 w4 w5 w6 w7.
           split_halves features w1 = (Inr (features1, features2), w2) \<and>
           perturb 0.7 features1 features2 w2 = (Inr (weak, strong, complete), w3) \<and>
           VNet_decoder self features1 False w3 = (Inr p1, w4) \<and>
           VNet_decoder self features2 False w4 = (Inr p2, w5) \<and>
           VNet_decoder self weak False w5 = (Inr p3, w6) \<and>
           VNet_decoder self strong False w6 = (Inr p4, w7) \<and>
           VNet_decoder self complete False w7 = (Inr p5, w') \<and>
           r = Tuple [p1, p2, p3, p4, p5]"
  using assms unfolding VNet_forward_strong_def
  by (auto simp add: andThen_Inr ret_eq split: prod.splits)

lemma UNet_forward_normal_Inr:
  assumes "UNet_forward_normal self feature w1 = (Inr r, w')"
  shows "\<exists>combined w2 outs pieces.
           mapM (\<lambda>feat. andThen (apply_layer True (DropoutLayer Channelwise 0.5) feat)
                          (\<lambda>dropped. lift (cat0 feat dropped))) feature w1 = (Inr combined, w2) \<and>
           Decoder_forward (unet_training self) (unet_decoder self) combined w2 = (Inr outs, w') \<and>
           chunk2 outs = Inr pieces \<and> r = Tuple pieces"
  using assms unfolding UNet_forward_normal_def
  by (auto simp add: andThen_Inr ret_eq lift_Inr)

lemma VNet_forward_normal_Inr:
  assumes "VNet_forward_normal self features w1 = (Inr r, w')"
  shows "\<exists>features_perturbed w2 combined outs pieces.
           mapM (\<lambda>feat. apply_layer (training self) (vnet_dropout self) feat) features w1
             = (Inr features_perturbed, w2) \<and>
           mapM (\<lambda>(feat, feat_pert). lift (cat0 feat feat_pert)) (zip features features_perturbed) w2
             = (Inr combined, w2) \<and>
           VNet_decoder self combined True w2 = (Inr outs, w') \<and>
           chunk2 outs = Inr pieces \<and> r = Tuple pieces"
proof -
  from assms obtain features_perturbed w2 combined w3 outs pieces where
    a: "mapM (\<lambda>feat. apply_layer (training self) (vnet_dropout self) feat) features w1
             = (Inr features_perturbed, w2)"
    and b: "mapM (\<lambda>(feat, feat_pert). lift (cat0 feat feat_pert)) (zip features features_perturbed) w2
             = (Inr combined, w3)"
    and c: "VNet_decoder self combined True w3 = (Inr outs, w')"
    and d: "chunk2 outs = Inr pieces" "r = Tuple pieces"
    unfolding VNet_forward_normal_def
    by (auto simp add: andThen_Inr ret_eq lift_Inr)
  have "w3 = w2"
  proof -
    have "mapM (\<lambda>(feat, feat_pert). lift (cat0 feat feat_pert)) ps v = (q, v') \<Longrightarrow> v' = v" for ps q v v'
      by (induction ps arbitrary: q v')
         (auto simp add: ret_eq andThen_def lift_def split: prod.splits sum.splits)
    with b show ?thesis by blast
  qed
  with a b c d show ?thesis by blast
qed


lemma UNet_forward_Inr:
  assumes "UNet_forward self x need_fp input_type w = (Inr r, w')"
  obtains feature w1 where
    "Encoder_forward (unet_training self) (unet_encoder self) x w = (Inr feature, w1)"
    "(if need_fp \<and> input_type = ''normal'' then UNet_forward_normal self feature
      else if need_fp \<and> input_type = ''strong'' then UNet_forward_strong self feature
      else andThen (Decoder_forward (unet_training self) (unet_decoder self) feature)
             (\<lambda>output. ret (Single output))) w1 = (Inr r, w')"
  using assms unfolding UNet_forward_def by (auto simp add: andThen_Inr)

lemma VNet_forward_Inr:
  assumes "VNet_forward self x turnoff_drop need_fp input_type w = (Inr r, self', w')"
  obtains features w1 where
    "VNet_encoder (if turnoff_drop then self\<lparr>has_dropout := False\<rparr> else self) x w
       = (Inr features, w1)"
    "(if need_fp \<and> input_type = ''normal''
        then VNet_forward_normal (if turnoff_drop then self\<lparr>has_dropout := False\<rparr> else self) features
      else if need_fp \<and> input_type = ''strong''
        then VNet_forward_strong (if turnoff_drop then self\<lparr>has_dropout := False\<rparr> else self) features
      else andThen (VNet_decoder (if turnoff_drop then self\<lparr>has_dropout := False\<rparr> else self)
                      features False) (\<lambda>out. ret (Single out))) w1 = (Inr r, w')"
proof -
  define self1 where "self1 = (if turnoff_drop then self\<lparr>has_dropout := False\<rparr> else self)"
  from assms obtain features w1 where e: "VNet_encoder self1 x w = (Inr features, w1)"
    unfolding VNet_forward_def Let_def self1_def [symmetric]
    by (cases "VNet_encoder self1 x w") (auto split: sum.splits)
  from assms e have "(if need_fp \<and> input_type = ''normal''
        then VNet_forward_normal self1 features
      else if need_fp \<and> input_type = ''strong''
        then VNet_forward_strong self1 features
      else andThen (VNet_decoder self1 features False) (\<lambda>out. ret (Single out))) w1 = (Inr r, w')"
    unfolding VNet_forward_def Let_def self1_def [symmetric]
    by (auto simp add: andThen_def ret_def split: prod.splits sum.splits if_splits)
  with e show ?thesis
    unfolding self1_def by (rule that)
qed

subsection \<open>Assertions at construction\<close>

lemma bindE_not_assert:
  assumes "r \<noteq> Inl AssertionError" and "\<And>a. r = Inr a \<Longrightarrow> f a \<noteq> Inl AssertionError"
  shows "bindE r f \<noteq> Inl AssertionError"
  using assms by (cases r) (simp_all add: bindE_def)

lemma mk_dropout_not_assert: "mk_dropout kind p \<noteq> Inl AssertionError"
  by (simp add: mk_dropout_def)

lemma index_not_assert: "index xs i \<noteq> Inl AssertionError"
  by (simp add: index_def)

lemma unet_ConvBlock_not_assert: "unet_ConvBlock name cin cout p \<noteq> Inl AssertionError"
  unfolding unet_ConvBlock_def by (intro bindE_not_assert mk_dropout_not_assert) simp

lemma DownBlock_not_assert: "DownBlock name cin cout p \<noteq> Inl AssertionError"
  unfolding DownBlock_def by (intro bindE_not_assert unet_ConvBlock_not_assert) simp

lemma UpBlock_not_assert: "UpBlock name c1 c2 cout p b \<noteq> Inl AssertionError"
  unfolding UpBlock_def by (intro bindE_not_assert unet_ConvBlock_not_assert) simp

lemma Encoder_assert_iff: "Encoder ps = Inl AssertionError \<longleftrightarrow> length (feature_chns ps) \<noteq> 5"
proof (cases "length (feature_chns ps) = 5")
  case False
  then show ?thesis by (simp add: Encoder_def)
next
  case True
  have "Encoder ps \<noteq> Inl AssertionError"
    unfolding Encoder_def Let_def using True
    apply simp
    apply (intro bindE_not_assert index_not_assert unet_ConvBlock_not_assert DownBlock_not_assert)
    apply simp
    done
  with True show ?thesis by simp
qed

lemma Decoder_assert_iff: "Decoder ps = Inl AssertionError \<longleftrightarrow> length (feature_chns ps) \<noteq> 5"
proof (cases "length (feature_chns ps) = 5")
  case False
  then show ?thesis by (simp add: Decoder_def)
next
  case True
  have "Decoder ps \<noteq> Inl AssertionError"
    unfolding Decoder_def Let_def using True
    apply simp
    apply (intro bindE_not_assert UpBlock_not_assert)
    apply simp
    done
  with True show ?thesis by simp
qed

lemma ConvBlock_loop_assert_iff:
  "ConvBlock_loop name is cin cout nrm acc = Inl AssertionError \<longleftrightarrow>
     is \<noteq> [] \<and> nrm \<notin> {''none'', ''batchnorm'', ''groupnorm'', ''instancenorm''}"
proof (induction "is" arbitrary: acc)
  case Nil
  show ?case by simp
next
  case (Cons i rest)
  let ?conv = "Conv 3 (name, length acc) (if i = 0 then cin else cout) cout 3 1 1"
  show ?case
  proof (cases rule: norm_cases [of nrm])
    case b
    then show ?thesis
      using Cons [of "acc @ [?conv, BatchNorm 3 (name, Suc (length acc)) cout, ReLU]"]
      by (auto simp add: Let_def bindE_def)
  next
    case g
    then show ?thesis
      using Cons [of "acc @ [?conv, GroupNorm (name, Suc (length acc)) 16 cout, ReLU]"]
      by (auto simp add: Let_def bindE_def mk_groupnorm_def)
  next
    case i
    then show ?thesis
      using Cons [of "acc @ [?conv, InstanceNorm 3 (name, Suc (length acc)) cout, ReLU]"]
      by (auto simp add: Let_def bindE_def)
  next
    case n
    then show ?thesis
      using Cons [of "acc @ [?conv, ReLU]"]
      by (auto simp add: Let_def bindE_def)
  next
    case bad
    then show ?thesis by (simp add: Let_def bindE_def)
  qed
qed

subsection \<open>The perturbation module and the forward pass\<close>

lemma VNet_encoder_pert: "VNet_encoder (self\<lparr>pert := q\<rparr>) = VNet_encoder self"
  by (rule ext) (simp add: VNet_encoder_def cong: if_cong)

lemma VNet_decoder_pert: "VNet_decoder (self\<lparr>pert := q\<rparr>) = VNet_decoder self"
  by (intro ext) (simp add: VNet_decoder_def cong: if_cong)

lemma VNet_forward_normal_pert: "VNet_forward_normal (self\<lparr>pert := q\<rparr>) = VNet_forward_normal self"
  by (rule ext) (simp add: VNet_forward_normal_def VNet_decoder_pert)

lemma VNet_forward_strong_pert: "VNet_forward_strong (self\<lparr>pert := q\<rparr>) = VNet_forward_strong self"
  by (rule ext) (simp add: VNet_forward_strong_def VNet_decoder_pert)

subsection \<open>Every level of the pyramid is computed from the level before it\<close>

lemma Encoder_forward_cascade:
  assumes "Encoder_forward tr enc x w = (Inr fs, w')"
  shows "length fs = 5 \<and> subexpr (val x) (val (fs ! 0)) \<and>
         subexpr (val (fs ! 0)) (val (fs ! 1)) \<and> subexpr (val (fs ! 1)) (val (fs ! 2)) \<and>
         subexpr (val (fs ! 2)) (val (fs ! 3)) \<and> subexpr (val (fs ! 3)) (val (fs ! 4))"
  using assms unfolding Encoder_forward_def
  by (auto simp add: andThen_Inr ret_eq dest: Sequential_keeps(3))

lemma VNet_encoder_cascade:
  assumes "VNet_encoder self x w = (Inr fs, w')"
  shows "length fs = 5 \<and> subexpr (val x) (val (fs ! 0)) \<and>
         subexpr (val (fs ! 0)) (val (fs ! 1)) \<and> subexpr (val (fs ! 1)) (val (fs ! 2)) \<and>
         subexpr (val (fs ! 2)) (val (fs ! 3)) \<and> subexpr (val (fs ! 3)) (val (fs ! 4))"
proof -
  from assms obtain x1 w1 x1d w2 x2 w3 x2d w4 x3 w5 x3d w6 x4 w7 x4d w8 x5 w9 x5' where
    r: "Sequential (training self) (block_one self) x (w\<lparr>calls := calls w @ [EncoderCall]\<rparr>) = (Inr x1, w1)"
       "Sequential (training self) (block_one_dw self) x1 w1 = (Inr x1d, w2)"
       "Sequential (training self) (block_two self) x1d w2 = (Inr x2, w3)"
       "Sequential (training self) (block_two_dw self) x2 w3 = (Inr x2d, w4)"
       "Sequential (training self) (block_three self) x2d w4 = (Inr x3, w5)"
       "Sequential (training self) (block_three_dw self) x3 w5 = (Inr x3d, w6)"
       "Sequential (training self) (block_four self) x3d w6 = (Inr x4, w7)"
       "Sequential (training self) (block_four_dw self) x4 w7 = (Inr x4d, w8)"
       "Sequential (training self) (block_five self) x4d w8 = (Inr x5, w9)"
    and d: "(if has_dropout self then apply_layer (training self) (vnet_dropout self) x5
              else ret x5) w9 = (Inr x5', w')"
    and fs: "fs = [x1, x2, x3, x4, x5']"
    unfolding VNet_encoder_def
    by (auto simp add: andThen_Inr ret_eq record_call_def)
  from d have "subexpr (val x5) (val x5')"
    by (auto simp add: ret_eq dest: apply_layer_keeps(3) split: if_splits)
  with r show ?thesis
    by (auto simp add: fs dest!: Sequential_keeps(3) intro: subexpr_trans)
qed

lemma UNet_params_Encoder:
  "\<exists>enc. Encoder \<lparr>in_chns = cin, feature_chns = [16, 32, 64, 128, 256],
                   dropout = [0.05, 0.1, 0.2, 0.3, 0.5], class_num = ncls,
                   bilinear = False, acti_func = ''relu''\<rparr> = Inr enc"
  by (simp add: Encoder_def Let_def bindE_def index_def unet_ConvBlock_def DownBlock_def
        mk_dropout_def)

lemma VNet_none_constructs: "\<exists>m. VNet nch ncl nf ''none'' hdrop (1 / 2) ''dropout'' = Inr m"
  by (simp add: VNet_def bindE_def vnet_PertDropout_def dropout_type_def mk_dropout_def Let_def
        vnet_ConvBlock_def DownsamplingConvBlock_def UpsamplingDeconvBlock_def upt_rec)

lemma UNet_params_Decoder:
  "\<exists>dec. Decoder \<lparr>in_chns = cin, feature_chns = [16, 32, 64, 128, 256],
                   dropout = [0.05, 0.1, 0.2, 0.3, 0.5], class_num = ncls,
                   bilinear = False, acti_func = ''relu''\<rparr> = Inr dec"
  by (simp add: Decoder_def Let_def bindE_def UpBlock_def unet_ConvBlock_def mk_dropout_def)

subsection \<open>The loops of the "strong" mode\<close>

lemma broadcast_rev_snoc:
  "broadcast_rev (xs @ [a]) (xs @ [b]) =
     (if a = b then Some (xs @ [a]) else if a = 1 then Some (xs @ [b])
      else if b = 1 then Some (xs @ [a]) else None)"
  by (induction xs) auto

lemma broadcast_head:
  "broadcast (a # s) (b # s) =
     (if a = b then Some (a # s) else if a = 1 then Some (b # s)
      else if b = 1 then Some (a # s) else None)"
  by (simp add: broadcast_def broadcast_rev_snoc)

lemma perturb_shapes:
  assumes "list_all2 (\<lambda>a b. \<exists>k1 k2 s. shape a = k1 # s \<and> shape b = k2 # s \<and> (k2 = k1 \<or> k2 = 1))
             fs1 fs2"
  shows "returns (perturb p fs1 fs2) w
           (\<lambda>(weak, strong, complete) w'.
              map shape weak = map shape fs1 \<and> map shape strong = map shape fs1 \<and>
              map shape complete = map shape fs1 \<and> calls w' = calls w)"
  using assms
proof (induction arbitrary: w rule: list_all2_induct)
  case Nil
  show ?case by simp
next
  case (Cons f1 r1 f2 r2)
  from Cons.hyps(1) obtain k1 k2 s where f1: "shape f1 = k1 # s" and f2: "shape f2 = k2 # s"
    and k: "k2 = k1 \<or> k2 = 1"
    by blast
  have rest: "returns (perturb p r1 r2) v
           (\<lambda>(weak, strong, complete) w'.
              map shape weak = map shape r1 \<and> map shape strong = map shape r1 \<and>
              map shape complete = map shape r1 \<and> calls w' = calls v)" for v
    by (rule Cons.IH)
  show ?case
    using k
    by (auto simp add: rand_mask_def mul_def add_def one_minus_def f1 f2 broadcast_head
          intro!: returns_mono [OF rest])
qed

lemma perturb_mismatch:
  assumes "shape f1 = k1 # s" and "shape f2 = k2 # s" and "k2 \<noteq> k1" and "k1 \<noteq> 1" and "k2 \<noteq> 1"
  shows "fst (perturb p (f1 # r1) (f2 # r2) w) = Inl RuntimeError"
  using assms
  by (simp add: andThen_def rand_mask_def fresh_def ret_def lift_def mul_def one_minus_def
        broadcast_head)

lemma chunk2_two:
  assumes "shape x = n # s" and "2 \<le> n"
  shows "chunk2 x = Inr [\<lparr>shape = ((n + 1) div 2) # s, val = Chunk 0 (val x)\<rparr>,
                         \<lparr>shape = (n div 2) # s, val = Chunk 1 (val x)\<rparr>]"
proof -
  have "n - (n + 1) div 2 = n div 2" by presburger
  moreover have "n div 2 \<noteq> 0" using assms(2) by presburger
  ultimately show ?thesis using assms by (simp add: chunk2_def Let_def)
qed

lemma chunk2_one:
  assumes "shape x = 1 # s"
  shows "chunk2 x = Inr [\<lparr>shape = 1 # s, val = Chunk 0 (val x)\<rparr>]"
  using assms by (simp add: chunk2_def Let_def)

lemma split_halves_two:
  assumes "list_all (\<lambda>x. \<exists>s. shape x = n # s) fs" and "2 \<le> n"
  shows "split_halves fs w =
           (Inr (map (\<lambda>x. \<lparr>shape = ((n + 1) div 2) # tl (shape x), val = Chunk 0 (val x)\<rparr>) fs,
                 map (\<lambda>x. \<lparr>shape = (n div 2) # tl (shape x), val = Chunk 1 (val x)\<rparr>) fs), w)"
  using assms(1)
proof (induction fs)
  case Nil
  show ?case by (simp add: ret_def)
next
  case (Cons x fs)
  from Cons.prems obtain s where s: "shape x = n # s" by auto
  from Cons show ?case
    by (simp add: andThen_def lift_def ret_def chunk2_two [OF s assms(2)] s)
qed

lemma split_halves_one:
  assumes "shape x = 1 # s"
  shows "split_halves (x # fs) w = (Inl ValueError, w)"
  by (simp add: andThen_def lift_def raise_def chunk2_one [OF assms])

subsection \<open>Runs of the U-Net\<close>

lemma UNet_Inr:
  assumes "UNet cin ncls = Inr self"
  obtains ps where "in_chns ps = cin" "feature_chns ps = [16, 32, 64, 128, 256]"
    "class_num ps = ncls" "Encoder ps = Inr (unet_encoder self)"
    "Decoder ps = Inr (unet_decoder self)" "unet_training self = True"
proof -
  let ?ps = "\<lparr>in_chns = cin, feature_chns = [16, 32, 64, 128, 256],
              dropout = [0.05, 0.1, 0.2, 0.3, 0.5], class_num = ncls,
              bilinear = False, acti_func = ''relu''\<rparr>"
  from assms have "Encoder ?ps = Inr (unet_encoder self)" "Decoder ?ps = Inr (unet_decoder self)"
    "unet_training self = True"
    by (auto simp add: UNet_def Let_def bindE_Inr_iff)
  then show ?thesis by (intro that [of ?ps]) simp_all
qed

lemma unet_pyramid_batch:
  assumes "map shape fs = unet_pyramid n c h w"
  shows "list_all (\<lambda>x. \<exists>s. shape x = n # s) fs"
proof -
  from assms have "length fs = 5" using length_map [of shape fs] by (simp add: unet_pyramid_def)
  then obtain x0 x1 x2 x3 x4 where "fs = [x0, x1, x2, x3, x4]" by (rule length5E)
  with assms show ?thesis by (simp add: unet_pyramid_def)
qed

lemma unet_pyramid_rebatch:
  assumes "map shape fs = unet_pyramid n c h w"
  shows "map (\<lambda>x. k # tl (shape x)) fs = unet_pyramid k c h w"
proof -
  from assms have "length fs = 5" using length_map [of shape fs] by (simp add: unet_pyramid_def)
  then obtain x0 x1 x2 x3 x4 where "fs = [x0, x1, x2, x3, x4]" by (rule length5E)
  with assms show ?thesis by (simp add: unet_pyramid_def)
qed

lemma halves_broadcastable:
  assumes "k2 = k1 \<or> k2 = 1"
  shows "list_all2 (\<lambda>a b. \<exists>k1 k2 s. shape a = k1 # s \<and> shape b = k2 # s \<and> (k2 = k1 \<or> k2 = 1))
           (map (\<lambda>x. \<lparr>shape = k1 # tl (shape x), val = Chunk 0 (val x)\<rparr>) fs)
           (map (\<lambda>x. \<lparr>shape = k2 # tl (shape x), val = Chunk 1 (val x)\<rparr>) fs)"
  using assms by (induction fs) auto

lemma UNet_forward_strong_ok:
  assumes self: "UNet cin ncls = Inr self"
    and x: "shape x = [n, cin, h, w]"
    and dims: "16 dvd h" "0 < h" "16 dvd w" "0 < w"
    and n: "2 \<le> n" and k: "n div 2 = (n + 1) div 2 \<or> n div 2 = 1"
  shows "returns (UNet_forward self x True ''strong'') w0
           (\<lambda>r w'. map shape (outputs r) =
              [[(n + 1) div 2, ncls, h, w], [n div 2, ncls, h, w], [(n + 1) div 2, ncls, h, w],
               [(n + 1) div 2, ncls, h, w], [(n + 1) div 2, ncls, h, w]])"
proof -
  from self obtain ps where ps: "in_chns ps = cin" "feature_chns ps = [16, 32, 64, 128, 256]"
    "class_num ps = ncls" and enc: "Encoder ps = Inr (unet_encoder self)"
    and dec: "Decoder ps = Inr (unet_decoder self)" and tr: "unet_training self = True"
    by (rule UNet_Inr)
  let ?ft = "feature_chns ps" and ?dec = "unet_decoder self"
  let ?k1 = "(n + 1) div 2" and ?k2 = "n div 2"
  have h16: "16 \<le> h" and w16: "16 \<le> w" using dims by (auto elim!: dvdE)
  have "returns (Encoder_forward True (unet_encoder self) x) w0
          (\<lambda>fs w'. map shape fs = unet_pyramid n ?ft h w \<and> calls w' = calls w0 @ [EncoderCall])"
    by (rule Encoder_forward_shape [OF enc _ h16 w16]) (use x n in \<open>auto simp add: ps\<close>)
  then obtain fs w1 where re: "Encoder_forward True (unet_encoder self) x w0 = (Inr fs, w1)"
    and se: "map shape fs = unet_pyramid n ?ft h w"
    by (auto simp add: returns_iff)
  define fs1 where "fs1 = map (\<lambda>x. \<lparr>shape = ?k1 # tl (shape x), val = Chunk 0 (val x)\<rparr>) fs"
  define fs2 where "fs2 = map (\<lambda>x. \<lparr>shape = ?k2 # tl (shape x), val = Chunk 1 (val x)\<rparr>) fs"
  have rs: "split_halves fs w1 = (Inr (fs1, fs2), w1)"
    unfolding fs1_def fs2_def by (rule split_halves_two [OF unet_pyramid_batch [OF se] n])
  have s1: "map shape fs1 = unet_pyramid ?k1 ?ft h w"
    and s2: "map shape fs2 = unet_pyramid ?k2 ?ft h w"
    using unet_pyramid_rebatch [OF se] by (simp_all add: fs1_def fs2_def comp_def)
  have "returns (perturb 0.7 fs1 fs2) w1
           (\<lambda>(weak, strong, complete) w'.
              map shape weak = map shape fs1 \<and> map shape strong = map shape fs1 \<and>
              map shape complete = map shape fs1 \<and> calls w' = calls w1)"
    unfolding fs1_def fs2_def by (rule perturb_shapes [OF halves_broadcastable [OF k]])
  then obtain weak strong complete w2 where
    rp: "perturb 0.7 fs1 fs2 w1 = (Inr (weak, strong, complete), w2)"
    and sw: "map shape weak = unet_pyramid ?k1 ?ft h w"
    and ss: "map shape strong = unet_pyramid ?k1 ?ft h w"
    and sc: "map shape complete = unet_pyramid ?k1 ?ft h w"
    by (auto simp add: returns_iff s1)
  note D = Decoder_forward_shape [OF dec _ dims, of _ _ True, unfolded returns_iff]
  from D [OF s1, of w2] obtain p1 w3 where
    d1: "Decoder_forward True ?dec fs1 w2 = (Inr p1, w3)" and t1: "shape p1 = [?k1, ncls, h, w]"
    by (auto simp add: ps)
  from D [OF s2, of w3] obtain p2 w4 where
    d2: "Decoder_forward True ?dec fs2 w3 = (Inr p2, w4)" and t2: "shape p2 = [?k2, ncls, h, w]"
    by (auto simp add: ps)
  from D [OF sw, of w4] obtain p3 w5 where
    d3: "Decoder_forward True ?dec weak w4 = (Inr p3, w5)" and t3: "shape p3 = [?k1, ncls, h, w]"
    by (auto simp add: ps)
  from D [OF ss, of w5] obtain p4 w6 where
    d4: "Decoder_forward True ?dec strong w5 = (Inr p4, w6)" and t4: "shape p4 = [?k1, ncls, h, w]"
    by (auto simp add: ps)
  from D [OF sc, of w6] obtain p5 w7 where
    d5: "Decoder_forward True ?dec complete w6 = (Inr p5, w7)" and t5: "shape p5 = [?k1, ncls, h, w]"
    by (auto simp add: ps)
  have "UNet_forward self x True ''strong'' w0 = (Inr (Tuple [p1, p2, p3, p4, p5]), w7)"
    by (simp add: UNet_forward_def UNet_forward_strong_def andThen_def ret_def tr re rs rp
          d1 d2 d3 d4 d5)
  then show ?thesis
    by (simp add: returns_def t1 t2 t3 t4 t5)
qed


lemma UNet_forward_strong_one:
  assumes self: "UNet cin ncls = Inr self"
    and x: "shape x = [1, cin, h, w]"
    and dims: "16 dvd h" "0 < h" "16 dvd w" "0 < w"
    and bn: "(h div 16) * (w div 16) \<noteq> 1"
  shows "fst (UNet_forward self x True ''strong'' w0) = Inl ValueError"
proof -
  from self obtain ps where ps: "in_chns ps = cin" "feature_chns ps = [16, 32, 64, 128, 256]"
    "class_num ps = ncls" and enc: "Encoder ps = Inr (unet_encoder self)"
    and tr: "unet_training self = True"
    by (rule UNet_Inr)
  have h16: "16 \<le> h" and w16: "16 \<le> w" using dims by (auto elim!: dvdE)
  have "returns (Encoder_forward True (unet_encoder self) x) w0
          (\<lambda>fs w'. map shape fs = unet_pyramid 1 (feature_chns ps) h w \<and>
                    calls w' = calls w0 @ [EncoderCall])"
    by (rule Encoder_forward_shape [OF enc _ h16 w16]) (use x bn in \<open>auto simp add: ps\<close>)
  then obtain fs w1 where re: "Encoder_forward True (unet_encoder self) x w0 = (Inr fs, w1)"
    and se: "map shape fs = unet_pyramid 1 (feature_chns ps) h w"
    by (auto simp add: returns_iff)
  from se have "length fs = 5" using length_map [of shape fs] by (simp add: unet_pyramid_def)
  then obtain x0 x1 x2 x3 x4 where fs: "fs = [x0, x1, x2, x3, x4]" by (rule length5E)
  with se have "shape x0 = 1 # [feature_chns ps ! 0, h, w]" by (simp add: unet_pyramid_def)
  then have "split_halves fs w1 = (Inl ValueError, w1)"
    unfolding fs by (rule split_halves_one)
  then show ?thesis
    by (simp add: UNet_forward_def UNet_forward_strong_def andThen_def tr re)
qed

lemma UNet_forward_strong_odd:
  assumes self: "UNet cin ncls = Inr self"
    and x: "shape x = [n, cin, h, w]"
    and dims: "16 dvd h" "0 < h" "16 dvd w" "0 < w"
    and n: "odd n" "5 \<le> n"
  shows "fst (UNet_forward self x True ''strong'' w0) = Inl RuntimeError"
proof -
  from self obtain ps where ps: "in_chns ps = cin" "feature_chns ps = [16, 32, 64, 128, 256]"
    "class_num ps = ncls" and enc: "Encoder ps = Inr (unet_encoder self)"
    and tr: "unet_training self = True"
    by (rule UNet_Inr)
  let ?k1 = "(n + 1) div 2" and ?k2 = "n div 2"
  have h16: "16 \<le> h" and w16: "16 \<le> w" using dims by (auto elim!: dvdE)
  have n2: "2 \<le> n" using n by simp
  have "returns (Encoder_forward True (unet_encoder self) x) w0
          (\<lambda>fs w'. map shape fs = unet_pyramid n (feature_chns ps) h w \<and>
                    calls w' = calls w0 @ [EncoderCall])"
    by (rule Encoder_forward_shape [OF enc _ h16 w16]) (use x n in \<open>auto simp add: ps\<close>)
  then obtain fs w1 where re: "Encoder_forward True (unet_encoder self) x w0 = (Inr fs, w1)"
    and se: "map shape fs = unet_pyramid n (feature_chns ps) h w"
    by (auto simp add: returns_iff)
  from se have "length fs = 5" using length_map [of shape fs] by (simp add: unet_pyramid_def)
  then obtain x0 x1 x2 x3 x4 where fs: "fs = [x0, x1, x2, x3, x4]" by (rule length5E)
  define fs1 where "fs1 = map (\<lambda>x. \<lparr>shape = ?k1 # tl (shape x), val = Chunk 0 (val x)\<rparr>) fs"
  define fs2 where "fs2 = map (\<lambda>x. \<lparr>shape = ?k2 # tl (shape x), val = Chunk 1 (val x)\<rparr>) fs"
  have rs: "split_halves fs w1 = (Inr (fs1, fs2), w1)"
    unfolding fs1_def fs2_def by (rule split_halves_two [OF unet_pyramid_batch [OF se] n2])
  from n have k: "?k2 \<noteq> ?k1" "?k1 \<noteq> 1" "?k2 \<noteq> 1" by presburger+
  have "fst (perturb 0.7 fs1 fs2 w1) = Inl RuntimeError"
    unfolding fs1_def fs2_def fs list.map
    by (rule perturb_mismatch [OF _ _ k]) simp_all
  then show ?thesis
    by (cases "perturb 0.7 fs1 fs2 w1")
       (simp add: UNet_forward_def UNet_forward_strong_def andThen_def tr re rs)
qed

lemma mapM_dropout_cat:
  assumes "list_all (\<lambda>x. \<exists>s. shape x = n # s) fs"
  shows "returns (mapM (\<lambda>feat. andThen (apply_layer True (DropoutLayer kind p) feat)
                                 (\<lambda>dropped. lift (cat0 feat dropped))) fs) w
           (\<lambda>cs w'. map shape cs = map (\<lambda>x. (n + n) # tl (shape x)) fs \<and> calls w' = calls w)"
  using assms
proof (induction fs arbitrary: w)
  case Nil
  show ?case by simp
next
  case (Cons x fs)
  from Cons.prems obtain s where s: "shape x = n # s" by auto
  have rest: "returns (mapM (\<lambda>feat. andThen (apply_layer True (DropoutLayer kind p) feat)
                                 (\<lambda>dropped. lift (cat0 feat dropped))) fs) v
           (\<lambda>cs w'. map shape cs = map (\<lambda>x. (n + n) # tl (shape x)) fs \<and> calls w' = calls v)" for v
    using Cons by simp
  have cat: "cat0 x \<lparr>shape = n # s, val = e\<rparr>
               = Inr \<lparr>shape = (n + n) # s, val = Cat0 (val x) e\<rparr>" for e
    by (simp add: cat0_def s)
  show ?case
    by (auto simp add: returns_apply_Dropout cat s intro!: returns_mono [OF rest])
qed

lemma chunk2_double:
  assumes "shape x = (n + n) # s"
  shows "chunk2 x = Inr [\<lparr>shape = n # s, val = Chunk 0 (val x)\<rparr>,
                         \<lparr>shape = n # s, val = Chunk 1 (val x)\<rparr>]"
proof (cases "n = 0")
  case True
  with assms show ?thesis by (simp add: chunk2_def Let_def)
next
  case False
  then have "2 \<le> n + n" by simp
  from chunk2_two [OF assms this] show ?thesis by simp
qed

lemma UNet_forward_normal_ok:
  assumes self: "UNet cin ncls = Inr self"
    and x: "shape x = [n, cin, h, w]"
    and dims: "16 dvd h" "0 < h" "16 dvd w" "0 < w"
    and bn: "n * (h div 16) * (w div 16) \<noteq> 1"
  shows "returns (UNet_forward self x True ''normal'') w0
           (\<lambda>r w'. map shape (outputs r) = [[n, ncls, h, w], [n, ncls, h, w]])"
proof -
  from self obtain ps where ps: "in_chns ps = cin" "feature_chns ps = [16, 32, 64, 128, 256]"
    "class_num ps = ncls" and enc: "Encoder ps = Inr (unet_encoder self)"
    and dec: "Decoder ps = Inr (unet_decoder self)" and tr: "unet_training self = True"
    by (rule UNet_Inr)
  have h16: "16 \<le> h" and w16: "16 \<le> w" using dims by (auto elim!: dvdE)
  have "returns (Encoder_forward True (unet_encoder self) x) w0
          (\<lambda>fs w'. map shape fs = unet_pyramid n (feature_chns ps) h w \<and>
                    calls w' = calls w0 @ [EncoderCall])"
    by (rule Encoder_forward_shape [OF enc _ h16 w16]) (use x bn in \<open>auto simp add: ps\<close>)
  then obtain fs w1 where re: "Encoder_forward True (unet_encoder self) x w0 = (Inr fs, w1)"
    and se: "map shape fs = unet_pyramid n (feature_chns ps) h w"
    by (auto simp add: returns_iff)
  from mapM_dropout_cat [OF unet_pyramid_batch [OF se], of Channelwise "1 / 2" w1]
  obtain cs w2 where rc: "mapM (\<lambda>feat. andThen (apply_layer True (DropoutLayer Channelwise (1 / 2)) feat)
                                 (\<lambda>dropped. lift (cat0 feat dropped))) fs w1 = (Inr cs, w2)"
    and sc: "map shape cs = unet_pyramid (n + n) (feature_chns ps) h w"
    by (auto simp add: returns_iff unet_pyramid_rebatch [OF se])
  from Decoder_forward_shape [OF dec sc dims, of True w2] obtain outs w3 where
    rd: "Decoder_forward True (unet_decoder self) cs w2 = (Inr outs, w3)"
    and so: "shape outs = (n + n) # [ncls, h, w]"
    by (auto simp add: returns_iff ps)
  have "UNet_forward self x True ''normal'' w0 =
          (Inr (Tuple [\<lparr>shape = n # [ncls, h, w], val = Chunk 0 (val outs)\<rparr>,
                       \<lparr>shape = n # [ncls, h, w], val = Chunk 1 (val outs)\<rparr>]), w3)"
    by (simp add: UNet_forward_def UNet_forward_normal_def andThen_def ret_def lift_def tr re rc rd
          chunk2_double [OF so])
  then show ?thesis
    by (simp add: returns_def)
qed

lemma UNet_forward_plain_ok:
  assumes self: "UNet cin ncls = Inr self"
    and x: "shape x = [n, cin, h, w]"
    and dims: "16 dvd h" "0 < h" "16 dvd w" "0 < w"
    and bn: "n * (h div 16) * (w div 16) \<noteq> 1"
    and mode: "\<not> (need_fp \<and> (input_type = ''normal'' \<or> input_type = ''strong''))"
  shows "returns (UNet_forward self x need_fp input_type) w0
           (\<lambda>r w'. map shape (outputs r) = [[n, ncls, h, w]])"
proof -
  from self obtain ps where ps: "in_chns ps = cin" "feature_chns ps = [16, 32, 64, 128, 256]"
    "class_num ps = ncls" and enc: "Encoder ps = Inr (unet_encoder self)"
    and dec: "Decoder ps = Inr (unet_decoder self)" and tr: "unet_training self = True"
    by (rule UNet_Inr)
  have h16: "16 \<le> h" and w16: "16 \<le> w" using dims by (auto elim!: dvdE)
  have "returns (Encoder_forward True (unet_encoder self) x) w0
          (\<lambda>fs w'. map shape fs = unet_pyramid n (feature_chns ps) h w \<and>
                    calls w' = calls w0 @ [EncoderCall])"
    by (rule Encoder_forward_shape [OF enc _ h16 w16]) (use x bn in \<open>auto simp add: ps\<close>)
  then obtain fs w1 where re: "Encoder_forward True (unet_encoder self) x w0 = (Inr fs, w1)"
    and se: "map shape fs = unet_pyramid n (feature_chns ps) h w"
    by (auto simp add: returns_iff)
  from Decoder_forward_shape [OF dec se dims, of True w1] obtain out w2 where
    rd: "Decoder_forward True (unet_decoder self) fs w1 = (Inr out, w2)"
    and so: "shape out = [n, ncls, h, w]"
    by (auto simp add: returns_iff ps)
  from mode have "UNet_forward self x need_fp input_type w0 = (Inr (Single out), w2)"
    by (auto simp add: UNet_forward_def andThen_def ret_def tr re rd)
  then show ?thesis
    by (simp add: returns_def so)
qed

subsection \<open>Runs of the V-Net\<close>

lemma vnet_pyramid_batch:
  assumes "map shape fs = vnet_pyramid n f d h w"
  shows "list_all (\<lambda>x. \<exists>s. shape x = n # s) fs"
proof -
  from assms have "length fs = 5" using length_map [of shape fs] by (simp add: vnet_pyramid_def)
  then obtain x0 x1 x2 x3 x4 where "fs = [x0, x1, x2, x3, x4]" by (rule length5E)
  with assms show ?thesis by (simp add: vnet_pyramid_def)
qed

lemma vnet_pyramid_rebatch:
  assumes "map shape fs = vnet_pyramid n f d h w"
  shows "map (\<lambda>x. k # tl (shape x)) fs = vnet_pyramid k f d h w"
proof -
  from assms have "length fs = 5" using length_map [of shape fs] by (simp add: vnet_pyramid_def)
  then obtain x0 x1 x2 x3 x4 where "fs = [x0, x1, x2, x3, x4]" by (rule length5E)
  with assms show ?thesis by (simp add: vnet_pyramid_def)
qed

lemma VNet_self1:
  "(if turnoff_drop then m\<lparr>has_dropout := False\<rparr> else m)
     = m\<lparr>has_dropout := \<not> turnoff_drop \<and> has_dropout m\<rparr>"
  by simp

lemma VNet_forward_strong_ok:
  assumes m: "VNet nch ncl nf nrm hdrop pg pt = Inr m"
    and x: "shape x = [n, nch, d, h, w]"
    and dims: "16 dvd d" "0 < d" "16 dvd h" "0 < h" "16 dvd w" "0 < w"
    and ok: "norm_ok True nrm n (nf * 16) [d div 16, h div 16, w div 16]"
    and n: "2 \<le> n" and k: "n div 2 = (n + 1) div 2 \<or> n div 2 = 1"
  shows "\<exists>r m' w'. VNet_forward m x turnoff_drop True ''strong'' w0 = (Inr r, m', w') \<and>
           map shape (outputs r) =
              [[(n + 1) div 2, ncl, d, h, w], [n div 2, ncl, d, h, w],
               [(n + 1) div 2, ncl, d, h, w], [(n + 1) div 2, ncl, d, h, w],
               [(n + 1) div 2, ncl, d, h, w]]"
proof -
  define b where "b = (\<not> turnoff_drop \<and> has_dropout m)"
  define self1 where "self1 = m\<lparr>has_dropout := b\<rparr>"
  have self1: "(if turnoff_drop then m\<lparr>has_dropout := False\<rparr> else m) = self1"
    unfolding self1_def b_def by (rule VNet_self1)
  let ?k1 = "(n + 1) div 2" and ?k2 = "n div 2"
  have d16: "16 \<le> d" "16 \<le> h" "16 \<le> w" using dims by (auto elim!: dvdE)
  from VNet_encoder_shape [OF m x d16 ok, of b w0]
  obtain fs w1 where re: "VNet_encoder self1 x w0 = (Inr fs, w1)"
    and se: "map shape fs = vnet_pyramid n nf d h w"
    by (auto simp add: returns_iff self1_def)
  define fs1 where "fs1 = map (\<lambda>x. \<lparr>shape = ?k1 # tl (shape x), val = Chunk 0 (val x)\<rparr>) fs"
  define fs2 where "fs2 = map (\<lambda>x. \<lparr>shape = ?k2 # tl (shape x), val = Chunk 1 (val x)\<rparr>) fs"
  have rs: "split_halves fs w1 = (Inr (fs1, fs2), w1)"
    unfolding fs1_def fs2_def by (rule split_halves_two [OF vnet_pyramid_batch [OF se] n])
  have s1: "map shape fs1 = vnet_pyramid ?k1 nf d h w"
    and s2: "map shape fs2 = vnet_pyramid ?k2 nf d h w"
    using vnet_pyramid_rebatch [OF se] by (simp_all add: fs1_def fs2_def comp_def)
  have "returns (perturb 0.7 fs1 fs2) w1
           (\<lambda>(weak, strong, complete) w'.
              map shape weak = map shape fs1 \<and> map shape strong = map shape fs1 \<and>
              map shape complete = map shape fs1 \<and> calls w' = calls w1)"
    unfolding fs1_def fs2_def by (rule perturb_shapes [OF halves_broadcastable [OF k]])
  then obtain weak strong complete w2 where
    rp: "perturb 0.7 fs1 fs2 w1 = (Inr (weak, strong, complete), w2)"
    and sw: "map shape weak = vnet_pyramid ?k1 nf d h w"
    and ss: "map shape strong = vnet_pyramid ?k1 nf d h w"
    and sc: "map shape complete = vnet_pyramid ?k1 nf d h w"
    by (auto simp add: returns_iff s1)
  note D = VNet_decoder_shape [OF m _ dims, of _ _ b False, folded self1_def, unfolded returns_iff]
  from D [OF s1, of w2] obtain p1 w3 where
    d1: "VNet_decoder self1 fs1 False w2 = (Inr p1, w3)" and t1: "shape p1 = [?k1, ncl, d, h, w]"
    by auto
  from D [OF s2, of w3] obtain p2 w4 where
    d2: "VNet_decoder self1 fs2 False w3 = (Inr p2, w4)" and t2: "shape p2 = [?k2, ncl, d, h, w]"
    by auto
  from D [OF sw, of w4] obtain p3 w5 where
    d3: "VNet_decoder self1 weak False w4 = (Inr p3, w5)" and t3: "shape p3 = [?k1, ncl, d, h, w]"
    by auto
  from D [OF ss, of w5] obtain p4 w6 where
    d4: "VNet_decoder self1 strong False w5 = (Inr p4, w6)" and t4: "shape p4 = [?k1, ncl, d, h, w]"
    by auto
  from D [OF sc, of w6] obtain p5 w7 where
    d5: "VNet_decoder self1 complete False w6 = (Inr p5, w7)" and t5: "shape p5 = [?k1, ncl, d, h, w]"
    by auto
  have "VNet_forward_strong self1 fs w1 = (Inr (Tuple [p1, p2, p3, p4, p5]), w7)"
    by (simp add: VNet_forward_strong_def andThen_def ret_def rs rp d1 d2 d3 d4 d5)
  then have "VNet_forward m x turnoff_drop True ''strong'' w0
               = (Inr (Tuple [p1, p2, p3, p4, p5]), self1, w7)"
    unfolding VNet_forward_def Let_def self1 by (simp add: re)
  then show ?thesis
    by (simp add: t1 t2 t3 t4 t5)
qed

lemma VNet_forward_strong_one:
  assumes m: "VNet nch ncl nf nrm hdrop pg pt = Inr m"
    and x: "shape x = [1, nch, d, h, w]"
    and dims: "16 dvd d" "0 < d" "16 dvd h" "0 < h" "16 dvd w" "0 < w"
    and ok: "norm_ok True nrm 1 (nf * 16) [d div 16, h div 16, w div 16]"
  shows "fst (VNet_forward m x turnoff_drop True ''strong'' w0) = Inl ValueError"
proof -
  define b where "b = (\<not> turnoff_drop \<and> has_dropout m)"
  define self1 where "self1 = m\<lparr>has_dropout := b\<rparr>"
  have self1: "(if turnoff_drop then m\<lparr>has_dropout := False\<rparr> else m) = self1"
    unfolding self1_def b_def by (rule VNet_self1)
  have d16: "16 \<le> d" "16 \<le> h" "16 \<le> w" using dims by (auto elim!: dvdE)
  from VNet_encoder_shape [OF m x d16 ok, of b w0]
  obtain fs w1 where re: "VNet_encoder self1 x w0 = (Inr fs, w1)"
    and se: "map shape fs = vnet_pyramid 1 nf d h w"
    by (auto simp add: returns_iff self1_def)
  from se have "length fs = 5" using length_map [of shape fs] by (simp add: vnet_pyramid_def)
  then obtain x0 x1 x2 x3 x4 where fs: "fs = [x0, x1, x2, x3, x4]" by (rule length5E)
  with se have "shape x0 = 1 # [nf, d, h, w]" by (simp add: vnet_pyramid_def)
  then have "split_halves fs w1 = (Inl ValueError, w1)"
    unfolding fs by (rule split_halves_one)
  then have "VNet_forward_strong self1 fs w1 = (Inl ValueError, w1)"
    by (simp add: VNet_forward_strong_def andThen_def)
  then show ?thesis
    unfolding VNet_forward_def Let_def self1 by (simp add: re)
qed

lemma VNet_forward_strong_odd:
  assumes m: "VNet nch ncl nf nrm hdrop pg pt = Inr m"
    and x: "shape x = [n, nch, d, h, w]"
    and dims: "16 dvd d" "0 < d" "16 dvd h" "0 < h" "16 dvd w" "0 < w"
    and ok: "norm_ok True nrm n (nf * 16) [d div 16, h div 16, w div 16]"
    and n: "odd n" "5 \<le> n"
  shows "fst (VNet_forward m x turnoff_drop True ''strong'' w0) = Inl RuntimeError"
proof -
  define b where "b = (\<not> turnoff_drop \<and> has_dropout m)"
  define self1 where "self1 = m\<lparr>has_dropout := b\<rparr>"
  have self1: "(if turnoff_drop then m\<lparr>has_dropout := False\<rparr> else m) = self1"
    unfolding self1_def b_def by (rule VNet_self1)
  let ?k1 = "(n + 1) div 2" and ?k2 = "n div 2"
  have d16: "16 \<le> d" "16 \<le> h" "16 \<le> w" using dims by (auto elim!: dvdE)
  have n2: "2 \<le> n" using n by simp
  from VNet_encoder_shape [OF m x d16 ok, of b w0]
  obtain fs w1 where re: "VNet_encoder self1 x w0 = (Inr fs, w1)"
    and se: "map shape fs = vnet_pyramid n nf d h w"
    by (auto simp add: returns_iff self1_def)
  from se have "length fs = 5" using length_map [of shape fs] by (simp add: vnet_pyramid_def)
  then obtain x0 x1 x2 x3 x4 where fs: "fs = [x0, x1, x2, x3, x4]" by (rule length5E)
  define fs1 where "fs1 = map (\<lambda>x. \<lparr>shape = ?k1 # tl (shape x), val = Chunk 0 (val x)\<rparr>) fs"
  define fs2 where "fs2 = map (\<lambda>x. \<lparr>shape = ?k2 # tl (shape x), val = Chunk 1 (val x)\<rparr>) fs"
  have rs: "split_halves fs w1 = (Inr (fs1, fs2), w1)"
    unfolding fs1_def fs2_def by (rule split_halves_two [OF vnet_pyramid_batch [OF se] n2])
  from n have k: "?k2 \<noteq> ?k1" "?k1 \<noteq> 1" "?k2 \<noteq> 1" by presburger+
  have "fst (perturb 0.7 fs1 fs2 w1) = Inl RuntimeError"
    unfolding fs1_def fs2_def fs list.map
    by (rule perturb_mismatch [OF _ _ k]) simp_all
  then have "fst (VNet_forward_strong self1 fs w1) = Inl RuntimeError"
    by (cases "perturb 0.7 fs1 fs2 w1") (simp add: VNet_forward_strong_def andThen_def rs)
  then show ?thesis
    unfolding VNet_forward_def Let_def self1
    by (cases "VNet_forward_strong self1 fs w1") (simp add: re)
qed

lemma mapM_dropout:
  "returns (mapM (\<lambda>feat. apply_layer True (DropoutLayer kind p) feat) fs) w
     (\<lambda>ps w'. map shape ps = map shape fs \<and> calls w' = calls w)"
proof (induction fs arbitrary: w)
  case Nil
  show ?case by simp
next
  case (Cons x fs)
  show ?case
    by (auto simp add: returns_apply_Dropout intro!: returns_mono [OF Cons])
qed

lemma mapM_cat:
  assumes "list_all (\<lambda>x. \<exists>s. shape x = n # s) fs" and "map shape ps = map shape fs"
  shows "returns (mapM (\<lambda>(feat, feat_pert). lift (cat0 feat feat_pert)) (zip fs ps)) w
           (\<lambda>cs w'. map shape cs = map (\<lambda>x. (n + n) # tl (shape x)) fs \<and> w' = w)"
  using assms
proof (induction fs arbitrary: ps)
  case Nil
  show ?case by simp
next
  case (Cons x fs)
  from Cons.prems obtain s where s: "shape x = n # s" by auto
  from Cons.prems(2) obtain q qs where ps: "ps = q # qs" and q: "shape q = n # s"
    and qs: "map shape qs = map shape fs"
    by (cases ps) (auto simp add: s)
  from Cons.prems(1) have "list_all (\<lambda>x. \<exists>s. shape x = n # s) fs" by simp
  from Cons.IH [OF this qs] show ?case
    by (auto simp add: ps cat0_def s q elim!: returns_mono)
qed

lemma VNet_forward_normal_ok:
  assumes m: "VNet nch ncl nf nrm hdrop pg pt = Inr m"
    and x: "shape x = [n, nch, d, h, w]"
    and dims: "16 dvd d" "0 < d" "16 dvd h" "0 < h" "16 dvd w" "0 < w"
    and ok: "norm_ok True nrm n (nf * 16) [d div 16, h div 16, w div 16]"
  shows "\<exists>r m' w'. VNet_forward m x turnoff_drop True ''normal'' w0 = (Inr r, m', w') \<and>
           m' = (if turnoff_drop then m\<lparr>has_dropout := False\<rparr> else m) \<and>
           map shape (outputs r) = [[n, ncl, d, h, w], [n, ncl, d, h, w]]"
proof -
  note u = VNet_Inr [OF m]
  define b where "b = (\<not> turnoff_drop \<and> has_dropout m)"
  define self1 where "self1 = m\<lparr>has_dropout := b\<rparr>"
  have self1: "(if turnoff_drop then m\<lparr>has_dropout := False\<rparr> else m) = self1"
    unfolding self1_def b_def by (rule VNet_self1)
  have d16: "16 \<le> d" "16 \<le> h" "16 \<le> w" using dims by (auto elim!: dvdE)
  from VNet_encoder_shape [OF m x d16 ok, of b w0]
  obtain fs w1 where re: "VNet_encoder self1 x w0 = (Inr fs, w1)"
    and se: "map shape fs = vnet_pyramid n nf d h w"
    by (auto simp add: returns_iff self1_def)
  from mapM_dropout [of Channelwise "1 / 2" fs w1] obtain ps w2 where
    rp: "mapM (\<lambda>feat. apply_layer True (DropoutLayer Channelwise (1 / 2)) feat) fs w1 = (Inr ps, w2)"
    and sp: "map shape ps = map shape fs"
    by (auto simp add: returns_iff)
  from mapM_cat [OF vnet_pyramid_batch [OF se] sp, of w2] obtain cs where
    rc: "mapM (\<lambda>(feat, feat_pert). lift (cat0 feat feat_pert)) (zip fs ps) w2 = (Inr cs, w2)"
    and sc: "map shape cs = vnet_pyramid (n + n) nf d h w"
    by (auto simp add: returns_iff vnet_pyramid_rebatch [OF se])
  from VNet_decoder_shape [OF m sc dims, of b True w2] obtain outs w3 where
    rd: "VNet_decoder self1 cs True w2 = (Inr outs, w3)"
    and so: "shape outs = (n + n) # [ncl, d, h, w]"
    by (auto simp add: returns_iff self1_def)
  have "VNet_forward_normal self1 fs w1 =
          (Inr (Tuple [\<lparr>shape = n # [ncl, d, h, w], val = Chunk 0 (val outs)\<rparr>,
                       \<lparr>shape = n # [ncl, d, h, w], val = Chunk 1 (val outs)\<rparr>]), w3)"
    by (simp add: VNet_forward_normal_def andThen_def ret_def lift_def self1_def u(19,20)
          rp rc rd [unfolded self1_def] chunk2_double [OF so])
  then have "VNet_forward m x turnoff_drop True ''normal'' w0 =
          (Inr (Tuple [\<lparr>shape = n # [ncl, d, h, w], val = Chunk 0 (val outs)\<rparr>,
                       \<lparr>shape = n # [ncl, d, h, w], val = Chunk 1 (val outs)\<rparr>]), self1, w3)"
    unfolding VNet_forward_def Let_def self1 by (simp add: re)
  then show ?thesis
    by (simp add: self1)
qed

lemma VNet_forward_plain_ok:
  assumes m: "VNet nch ncl nf nrm hdrop pg pt = Inr m"
    and x: "shape x = [n, nch, d, h, w]"
    and dims: "16 dvd d" "0 < d" "16 dvd h" "0 < h" "16 dvd w" "0 < w"
    and ok: "norm_ok True nrm n (nf * 16) [d div 16, h div 16, w div 16]"
    and mode: "\<not> (need_fp \<and> (input_type = ''normal'' \<or> input_type = ''strong''))"
  shows "\<exists>r w'. VNet_forward m x turnoff_drop need_fp input_type w0 = (Inr r, m, w') \<and>
           map shape (outputs r) = [[n, ncl, d, h, w]]"
proof -
  note u = VNet_Inr [OF m]
  define b where "b = (\<not> turnoff_drop \<and> has_dropout m)"
  define self1 where "self1 = m\<lparr>has_dropout := b\<rparr>"
  have self1: "(if turnoff_drop then m\<lparr>has_dropout := False\<rparr> else m) = self1"
    unfolding self1_def b_def by (rule VNet_self1)
  have restored: "(if turnoff_drop then self1\<lparr>has_dropout := has_dropout m\<rparr> else self1) = m"
    by (simp add: self1_def b_def)
  have d16: "16 \<le> d" "16 \<le> h" "16 \<le> w" using dims by (auto elim!: dvdE)
  from VNet_encoder_shape [OF m x d16 ok, of b w0]
  obtain fs w1 where re: "VNet_encoder self1 x w0 = (Inr fs, w1)"
    and se: "map shape fs = vnet_pyramid n nf d h w"
    by (auto simp add: returns_iff self1_def)
  from VNet_decoder_shape [OF m se dims, of b False w1] obtain out w2 where
    rd: "VNet_decoder self1 fs False w1 = (Inr out, w2)"
    and so: "shape out = [n, ncl, d, h, w]"
    by (auto simp add: returns_iff self1_def)
  from mode have "VNet_forward m x turnoff_drop need_fp input_type w0 = (Inr (Single out), m, w2)"
    unfolding VNet_forward_def Let_def self1 by (auto simp add: re rd restored)
  then show ?thesis
    by (simp add: so)
qed

subsection \<open>Auxiliary facts for the claims\<close>

lemma UNet_constructs: "\<exists>self. UNet cin ncls = Inr self"
  by (simp add: UNet_def Let_def bindE_def Encoder_def Decoder_def index_def unet_ConvBlock_def
        DownBlock_def UpBlock_def mk_dropout_def unet_PertDropout_def)

lemma even_halves: "even (n::nat) \<Longrightarrow> Suc n div Suc (Suc 0) = n div Suc (Suc 0)"
  by presburger

lemma batch_cases: "even (n::nat) \<or> n = 3 \<or> n = 1 \<or> odd n \<and> 5 \<le> n"
  by presburger

subsection \<open>What the two loops of the "strong_features" mode compute\<close>

lemma chunk2_vals:
  assumes "chunk2 x = Inr [f1, f2]"
  shows "val f1 = Chunk 0 (val x)" and "val f2 = Chunk 1 (val x)"
  using assms by (auto simp add: chunk2_def Let_def split: list.splits if_splits)

lemma split_halves_vals:
  assumes "split_halves fs w = (Inr (fs1, fs2), w')"
  shows "w' = w \<and> map val fs1 = map (\<lambda>x. Chunk 0 (val x)) fs \<and>
         map val fs2 = map (\<lambda>x. Chunk 1 (val x)) fs"
  using assms
proof (induction fs arbitrary: fs1 fs2)
  case Nil
  then show ?case by (simp add: ret_eq)
next
  case (Cons x fs)
  from Cons.prems obtain pieces where c: "chunk2 x = Inr pieces"
    and rest: "(case pieces of
         [f1, f2] \<Rightarrow>
           andThen (split_halves fs) (\<lambda>(features1, features2).
             ret (f1 # features1, f2 # features2))
       | _ \<Rightarrow> raise ValueError) w = (Inr (fs1, fs2), w')"
    by (auto simp add: andThen_Inr lift_Inr)
  from rest obtain f1 f2 where p: "pieces = [f1, f2]"
    by (auto simp add: raise_eq split: list.splits)
  from rest p obtain r1 r2 where s: "split_halves fs w = (Inr (r1, r2), w')"
    and fs1: "fs1 = f1 # r1" and fs2: "fs2 = f2 # r2"
    by (auto simp add: andThen_Inr ret_eq split: prod.splits)
  from Cons.IH [OF s] chunk2_vals [OF c [unfolded p]] show ?case
    by (simp add: fs1 fs2)
qed

lemma map_val_nth:
  assumes "map val ys = map f xs" and "i < length xs"
  shows "val (ys ! i) = f (xs ! i)"
proof -
  from assms(1) have l: "length ys = length xs" by (rule map_eq_imp_length_eq)
  from assms(2) l have "val (ys ! i) = map val ys ! i" by simp
  also have "\<dots> = f (xs ! i)" using assms by simp
  finally show ?thesis .
qed

lemma perturb_vals:
  assumes "perturb p fs1 fs2 w = (Inr (weak_features, strong_features, complete_features), w')"
    and "length fs1 = length fs2"
  shows "length weak_features = length fs1 \<and> length strong_features = length fs1 \<and> length complete_features = length fs1 \<and>
         (\<forall>i<length fs1.
            val (weak_features ! i) = Mul (val (fs1 ! i)) (RandMask (rng w + i) p) \<and>
            val (strong_features ! i) = Mul (val (fs2 ! i)) (OneMinus (RandMask (rng w + i) p)) \<and>
            val (complete_features ! i) = Add (val (weak_features ! i)) (val (strong_features ! i)))"
  using assms
proof (induction p fs1 fs2 arbitrary: w weak_features strong_features complete_features rule: perturb.induct)
  case (1 p f1 rest1 f2 rest2)
  let ?w1 = "w\<lparr>rng := Suc (rng w)\<rparr>"
  let ?mask = "\<lparr>shape = shape f1, val = RandMask (rng w) p\<rparr>"
  have mask: "rand_mask f1 p w = (Inr ?mask, ?w1)"
    by (simp add: rand_mask_def andThen_def fresh_def ret_def)
  from "1.prems"(1) obtain weak_f strong_f complete_f ws ss cs where
    wf: "mul f1 ?mask = Inr weak_f"
    and sf: "mul f2 (one_minus ?mask) = Inr strong_f"
    and cf: "add weak_f strong_f = Inr complete_f"
    and rest: "perturb p rest1 rest2 ?w1 = (Inr (ws, ss, cs), w')"
    and out: "weak_features = weak_f # ws" "strong_features = strong_f # ss" "complete_features = complete_f # cs"
    by (auto simp add: andThen_Inr mask lift_Inr ret_eq split: prod.splits)
  from wf have vw: "val weak_f = Mul (val f1) (RandMask (rng w) p)"
    by (auto simp add: mul_def split: option.splits)
  from sf have vs: "val strong_f = Mul (val f2) (OneMinus (RandMask (rng w) p))"
    by (auto simp add: mul_def one_minus_def split: option.splits)
  from cf have vc: "val complete_f = Add (val weak_f) (val strong_f)"
    by (auto simp add: add_def split: option.splits)
  from "1.prems"(2) have len: "length rest1 = length rest2" by simp
  note ih = "1.IH" [OF rest len]
  show ?case
  proof (intro conjI allI impI)
    fix i assume i: "i < length (f1 # rest1)"
    show "val (weak_features ! i) = Mul (val ((f1 # rest1) ! i)) (RandMask (rng w + i) p)"
      using i ih vw by (cases i) (simp_all add: out)
    show "val (strong_features ! i) = Mul (val ((f2 # rest2) ! i)) (OneMinus (RandMask (rng w + i) p))"
      using i ih vs by (cases i) (simp_all add: out)
    show "val (complete_features ! i) = Add (val (weak_features ! i)) (val (strong_features ! i))"
      using i ih vc by (cases i) (simp_all add: out)
  qed (use ih in \<open>simp_all add: out\<close>)
qed (simp_all add: ret_eq)

subsection \<open>The perturbation module\<close>

lemma mapM_dropout_run:
  "\<exists>ys. mapM (\<lambda>feat. apply_layer True (DropoutLayer kind q) feat) x w
          = (Inr ys, w\<lparr>rng := rng w + length x\<rparr>) \<and>
        length ys = length x \<and>
        (\<forall>j<length x. ys ! j =
           \<lparr>shape = shape (x ! j), val = Dropped kind q (rng w + j) (val (x ! j))\<rparr>)"
proof (induction x arbitrary: w)
  case Nil
  show ?case by (simp add: ret_def)
next
  case (Cons f fs)
  let ?w1 = "w\<lparr>rng := Suc (rng w)\<rparr>"
  let ?y = "\<lparr>shape = shape f, val = Dropped kind q (rng w) (val f)\<rparr>"
  have first: "apply_layer True (DropoutLayer kind q) f w = (Inr ?y, ?w1)"
    by (simp add: apply_layer_def andThen_def fresh_def ret_def)
  from Cons [of ?w1] obtain ys where
    run: "mapM (\<lambda>feat. apply_layer True (DropoutLayer kind q) feat) fs ?w1
            = (Inr ys, ?w1\<lparr>rng := rng ?w1 + length fs\<rparr>)"
    and len: "length ys = length fs"
    and nth: "\<forall>j<length fs. ys ! j =
           \<lparr>shape = shape (fs ! j), val = Dropped kind q (rng ?w1 + j) (val (fs ! j))\<rparr>"
    by blast
  have "mapM (\<lambda>feat. apply_layer True (DropoutLayer kind q) feat) (f # fs) w
          = (Inr (?y # ys), w\<lparr>rng := rng w + length (f # fs)\<rparr>)"
    by (simp add: andThen_def first run ret_def)
  moreover have "\<forall>j<length (f # fs). (?y # ys) ! j =
           \<lparr>shape = shape ((f # fs) ! j), val = Dropped kind q (rng w + j) (val ((f # fs) ! j))\<rparr>"
  proof (intro allI impI)
    fix j assume "j < length (f # fs)"
    then show "(?y # ys) ! j =
           \<lparr>shape = shape ((f # fs) ! j), val = Dropped kind q (rng w + j) (val ((f # fs) ! j))\<rparr>"
      using nth by (cases j) simp_all
  qed
  ultimately show ?case using len by (intro exI [of _ "?y # ys"]) simp
qed

lemma PertDropout_forward_two:
  assumes "dropouts s = [DropoutLayer k0 q0, DropoutLayer k1 q1]"
  shows "\<exists>a b w'. PertDropout_forward s x w = (Inr [a, b], w') \<and>
           length a = length x \<and> length b = length x \<and>
           (\<forall>j<length x.
              a ! j = \<lparr>shape = shape (x ! j), val = Dropped k0 q0 (rng w + j) (val (x ! j))\<rparr> \<and>
              b ! j = \<lparr>shape = shape (x ! j),
                       val = Dropped k1 q1 (rng w + length x + j) (val (x ! j))\<rparr>)"
proof -
  let ?w1 = "w\<lparr>rng := rng w + length x\<rparr>"
  from mapM_dropout_run [of k0 q0 x w] obtain a where
    ra: "mapM (\<lambda>feat. apply_layer True (DropoutLayer k0 q0) feat) x w = (Inr a, ?w1)"
    and la: "length a = length x"
    and na: "\<forall>j<length x. a ! j =
           \<lparr>shape = shape (x ! j), val = Dropped k0 q0 (rng w + j) (val (x ! j))\<rparr>"
    by blast
  from mapM_dropout_run [of k1 q1 x ?w1] obtain b where
    rb: "mapM (\<lambda>feat. apply_layer True (DropoutLayer k1 q1) feat) x ?w1
           = (Inr b, ?w1\<lparr>rng := rng ?w1 + length x\<rparr>)"
    and lb: "length b = length x"
    and nb: "\<forall>j<length x. b ! j =
           \<lparr>shape = shape (x ! j), val = Dropped k1 q1 (rng ?w1 + j) (val (x ! j))\<rparr>"
    by blast
  have "PertDropout_forward s x w = (Inr [a, b], ?w1\<lparr>rng := rng ?w1 + length x\<rparr>)"
    by (simp add: PertDropout_forward_def assms andThen_def ra rb ret_def)
  with la lb na nb show ?thesis by (intro exI conjI) (assumption | simp)+
qed

lemma unet_PertDropout_Inr:
  assumes "unet_PertDropout p = Inr self"
  shows "self = \<lparr>pert_p = p, dropouts = [DropoutLayer Channelwise (p * 0.5),
                     DropoutLayer Channelwise (p * 1.5)], len = 2\<rparr>"
  using assms by (auto simp add: unet_PertDropout_def bindE_def mk_dropout_def split: if_splits)

lemma vnet_PertDropout_Inr:
  assumes "vnet_PertDropout p pert_type = Inr self"
  shows "\<exists>kind. dropout_type pert_type = Some kind \<and>
           self = \<lparr>pert_p = p, dropouts = [DropoutLayer kind (0.5 - p / 2),
                     DropoutLayer kind (0.5 + p / 2)], len = 2\<rparr>"
  using assms
  by (auto simp add: vnet_PertDropout_def Let_def bindE_def mk_dropout_def
      split: if_splits option.splits)

subsection \<open>The number of tensors that the "normal" mode returns\<close>

lemma cat0_shape:
  assumes "cat0 a b = Inr c"
  shows "\<exists>n m s. shape a = n # s \<and> shape b = m # s \<and> shape c = (n + m) # s"
  using assms by (auto simp add: cat0_def split: list.splits if_splits)

lemma cat1_batch:
  assumes "cat1 a b = Inr c"
  shows "batch c = batch a"
  using assms by (auto simp add: cat1_def batch_def split: list.splits if_splits)

lemma chunk2_batch_double:
  assumes "chunk2 x = Inr ps" and "batch x = Some (n + n)"
  shows "\<exists>a b. ps = [a, b]"
proof -
  from assms(2) obtain s where "shape x = (n + n) # s"
    by (auto simp add: batch_def split: list.splits)
  from chunk2_double [OF this] assms(1) show ?thesis by simp
qed

lemma mapM_dropout_cat_double:
  assumes "mapM (\<lambda>feat. andThen (apply_layer True (DropoutLayer k p) feat)
                          (\<lambda>dropped. lift (cat0 feat dropped))) fs w = (Inr cs, w')"
  shows "list_all (\<lambda>c. \<exists>n. batch c = Some (n + n)) cs"
  using assms
proof (induction fs arbitrary: cs w)
  case Nil
  then show ?case by (simp add: ret_eq)
next
  case (Cons f fs)
  from Cons.prems obtain d w1 c ys where
    d: "apply_layer True (DropoutLayer k p) f w = (Inr d, w1)"
    and c: "cat0 f d = Inr c"
    and rest: "mapM (\<lambda>feat. andThen (apply_layer True (DropoutLayer k p) feat)
                          (\<lambda>dropped. lift (cat0 feat dropped))) fs w1 = (Inr ys, w')"
    and cs: "cs = c # ys"
    by (auto simp add: andThen_Inr lift_Inr ret_eq)
  from d have "shape d = shape f"
    by (auto simp add: apply_layer_def andThen_def fresh_def ret_def)
  with cat0_shape [OF c] have "\<exists>n. batch c = Some (n + n)"
    by (auto simp add: batch_def)
  with Cons.IH [OF rest] show ?case by (simp add: cs)
qed

lemma UpBlock_forward_batch:
  assumes "UpBlock_forward tr ub x1 x2 w = (Inr y, w')"
  shows "batch y = batch x2"
proof -
  from assms obtain x1b c w3 where c: "cat1 x2 x1b = Inr c"
    and s: "Sequential tr (ub_conv ub) c w3 = (Inr y, w')"
    unfolding UpBlock_forward_def by (auto simp add: andThen_Inr lift_Inr)
  from Sequential_keeps(2) [OF s] cat1_batch [OF c] show ?thesis by simp
qed

lemma Decoder_forward_batch:
  assumes "Decoder_forward tr dec fs w = (Inr out, w')"
  shows "\<exists>x0. index fs 0 = Inr x0 \<and> batch out = batch x0"
proof -
  from assms obtain x0 x w4 w5 w6 where x0: "index fs 0 = Inr x0"
    and u: "UpBlock_forward tr (up4 dec) x x0 w4 = (Inr w5, w6)"
    and o: "apply_layer tr (out_conv dec) w5 w6 = (Inr out, w')"
    unfolding Decoder_forward_def by (auto simp add: andThen_Inr lift_Inr)
  from apply_layer_keeps(2) [OF o] UpBlock_forward_batch [OF u] x0 show ?thesis by simp
qed

lemma UNet_forward_normal_two:
  assumes "UNet_forward_normal self feature w1 = (Inr r, w')"
  shows "\<exists>a b. r = Tuple [a, b]"
proof -
  from UNet_forward_normal_Inr [OF assms] obtain combined w2 outs pieces where
    m: "mapM (\<lambda>feat. andThen (apply_layer True (DropoutLayer Channelwise 0.5) feat)
                          (\<lambda>dropped. lift (cat0 feat dropped))) feature w1 = (Inr combined, w2)"
    and d: "Decoder_forward (unet_training self) (unet_decoder self) combined w2 = (Inr outs, w')"
    and c: "chunk2 outs = Inr pieces" and r: "r = Tuple pieces"
    by blast
  from Decoder_forward_batch [OF d] obtain x0 where x0: "index combined 0 = Inr x0"
    and b: "batch outs = batch x0"
    by blast
  from x0 have "x0 \<in> set combined"
    by (auto simp add: index_def split: if_splits)
  with mapM_dropout_cat_double [OF m] obtain n where "batch x0 = Some (n + n)"
    by (auto simp add: list_all_iff)
  with b have "batch outs = Some (n + n)" by simp
  from chunk2_batch_double [OF c this] r show ?thesis by simp
qed

lemma broadcast_rev_equal_last:
  assumes "length xs = length ys" and "broadcast_rev (xs @ [a]) (ys @ [a]) = Some r"
  shows "\<exists>t. r = t @ [a] \<and> length t = length xs"
  using assms
proof (induction xs ys arbitrary: r rule: list_induct2)
  case Nil
  then show ?case by simp
next
  case (Cons x xs y ys)
  from Cons.prems obtain r' z where r': "broadcast_rev (xs @ [a]) (ys @ [a]) = Some r'"
    and r: "r = z # r'"
    by (auto split: option.splits if_splits)
  from Cons.IH [OF r'] obtain t where "r' = t @ [a]" "length t = length xs" by blast
  with r have "r = (z # t) @ [a] \<and> length (z # t) = length (x # xs)" by simp
  then show ?case by blast
qed

lemma add_keeps:
  assumes c: "add a b = Inr c"
    and a: "batch a = Some k" "rank a = r" and b: "batch b = Some k" "rank b = r"
  shows "batch c = Some k \<and> rank c = r"
proof -
  from a obtain xs where xs: "shape a = k # xs" "r = Suc (length xs)"
    by (auto simp add: batch_def rank_def split: list.splits)
  from b xs obtain ys where ys: "shape b = k # ys" "length ys = length xs"
    by (auto simp add: batch_def rank_def split: list.splits)
  from c obtain s where s: "broadcast (shape a) (shape b) = Some s" and sc: "shape c = s"
    by (auto simp add: add_def split: option.splits)
  from s obtain q where q: "broadcast_rev (rev xs @ [k]) (rev ys @ [k]) = Some q" and sq: "s = rev q"
    by (auto simp add: broadcast_def xs ys)
  from broadcast_rev_equal_last [OF _ q] ys obtain t where "q = t @ [k]" "length t = length xs"
    by auto
  with sq sc xs show ?thesis by (simp add: batch_def rank_def)
qed

lemma Sequential_inv:
  assumes "Sequential tr ls x w = (Inr y, w')" and "batch x = b \<and> rank x = r"
  shows "batch y = b \<and> rank y = r"
  using Sequential_keeps(1,2) [OF assms(1)] assms(2) by simp

lemma maybe_dropout_inv:
  assumes "(if c then apply_layer tr l x else ret x) w = (Inr y, w')"
    and "batch x = b \<and> rank x = r"
  shows "batch y = b \<and> rank y = r"
proof (cases c)
  case True
  with assms(1) have "apply_layer tr l x w = (Inr y, w')" by simp
  from apply_layer_keeps(1,2) [OF this] assms(2) show ?thesis by simp
next
  case False
  with assms show ?thesis by (simp add: ret_eq)
qed


lemma VNet_encoder_inv:
  assumes "VNet_encoder self x w = (Inr fs, w')"
  shows "length fs = 5 \<and> (\<forall>f\<in>set fs. batch f = batch x \<and> rank f = rank x)"
proof -
  let ?tr = "training self"
  from assms [unfolded VNet_encoder_def andThen_Inr ret_eq]
  obtain x1 w1 x1_dw w2 x2 w3 x2_dw w4 x3 w5 x3_dw w6 x4 w7 x4_dw w8 x5 w9 x5d w10 where
    s1: "Sequential ?tr (block_one self) x w1 = (Inr x1, w2)"
    and s2: "Sequential ?tr (block_one_dw self) x1 w2 = (Inr x1_dw, w3)"
    and s3: "Sequential ?tr (block_two self) x1_dw w3 = (Inr x2, w4)"
    and s4: "Sequential ?tr (block_two_dw self) x2 w4 = (Inr x2_dw, w5)"
    and s5: "Sequential ?tr (block_three self) x2_dw w5 = (Inr x3, w6)"
    and s6: "Sequential ?tr (block_three_dw self) x3 w6 = (Inr x3_dw, w7)"
    and s7: "Sequential ?tr (block_four self) x3_dw w7 = (Inr x4, w8)"
    and s8: "Sequential ?tr (block_four_dw self) x4 w8 = (Inr x4_dw, w9)"
    and s9: "Sequential ?tr (block_five self) x4_dw w9 = (Inr x5, w10)"
    and d: "(if has_dropout self then apply_layer ?tr (vnet_dropout self) x5 else ret x5) w10
              = (Inr x5d, w')"
    and fs: "fs = [x1, x2, x3, x4, x5d]"
    by blast
  note k = Sequential_inv [OF _ conjI [OF refl refl]]
  note i1 = k [OF s1]
  note i2 = k [OF s2]
  note i3 = k [OF s3]
  note i4 = k [OF s4]
  note i5 = k [OF s5]
  note i6 = k [OF s6]
  note i7 = k [OF s7]
  note i8 = k [OF s8]
  note i9 = k [OF s9]
  note i10 = maybe_dropout_inv [OF d conjI [OF refl refl]]
  from i1 i2 i3 i4 i5 i6 i7 i8 i9 i10 show ?thesis by (simp add: fs)
qed

lemma VNet_decoder_batch:
  assumes run: "VNet_decoder self fs nd w = (Inr out, w')"
    and inv: "\<forall>f\<in>set fs. batch f = Some k \<and> rank f = r"
  shows "batch out = Some k"
proof -
  let ?tr = "training self"
  from run [unfolded VNet_decoder_def andThen_Inr lift_Inr]
  obtain x1 x2 x3 x4 x5 w1 x5_up w2 a5 x6 w3 x6_up w4 a6 x7 w5 x7_up w6 a7 x8 w7 x8_up w8 a8
      x9 w9 x9d w10 where
    g: "index fs 0 = Inr x1" "index fs 1 = Inr x2" "index fs 2 = Inr x3" "index fs 3 = Inr x4"
       "index fs 4 = Inr x5"
    and s5: "Sequential ?tr (block_five_up self) x5 w1 = (Inr x5_up, w2)"
    and a5: "add x5_up x4 = Inr a5"
    and s6: "Sequential ?tr (block_six self) a5 w2 = (Inr x6, w3)"
    and u6: "Sequential ?tr (block_six_up self) x6 w3 = (Inr x6_up, w4)"
    and a6: "add x6_up x3 = Inr a6"
    and s7: "Sequential ?tr (block_seven self) a6 w4 = (Inr x7, w5)"
    and u7: "Sequential ?tr (block_seven_up self) x7 w5 = (Inr x7_up, w6)"
    and a7: "add x7_up x2 = Inr a7"
    and s8: "Sequential ?tr (block_eight self) a7 w6 = (Inr x8, w7)"
    and u8: "Sequential ?tr (block_eight_up self) x8 w7 = (Inr x8_up, w8)"
    and a8: "add x8_up x1 = Inr a8"
    and s9: "Sequential ?tr (block_nine self) a8 w8 = (Inr x9, w9)"
    and d: "(if \<not> nd \<and> has_dropout self then apply_layer ?tr (vnet_dropout self) x9
             else ret x9) w9 = (Inr x9d, w10)"
    and o: "apply_layer ?tr (vnet_out_conv self) x9d w10 = (Inr out, w')"
    by (elim exE conjE) (hypsubst, rule that, assumption+)
  from g have "x1 \<in> set fs" "x2 \<in> set fs" "x3 \<in> set fs" "x4 \<in> set fs" "x5 \<in> set fs"
    by (auto simp add: index_def split: if_splits)
  with inv have i1: "batch x1 = Some k \<and> rank x1 = r" and i2: "batch x2 = Some k \<and> rank x2 = r"
    and i3: "batch x3 = Some k \<and> rank x3 = r" and i4: "batch x4 = Some k \<and> rank x4 = r"
    and i5: "batch x5 = Some k \<and> rank x5 = r"
    by blast+
  note j5 = Sequential_inv [OF s5 i5]
  from add_keeps [OF a5] j5 i4 have b5: "batch a5 = Some k \<and> rank a5 = r" by blast
  note j6 = Sequential_inv [OF u6 Sequential_inv [OF s6 b5]]
  from add_keeps [OF a6] j6 i3 have b6: "batch a6 = Some k \<and> rank a6 = r" by blast
  note j7 = Sequential_inv [OF u7 Sequential_inv [OF s7 b6]]
  from add_keeps [OF a7] j7 i2 have b7: "batch a7 = Some k \<and> rank a7 = r" by blast
  note j8 = Sequential_inv [OF u8 Sequential_inv [OF s8 b7]]
  from add_keeps [OF a8] j8 i1 have b8: "batch a8 = Some k \<and> rank a8 = r" by blast
  note j9 = maybe_dropout_inv [OF d Sequential_inv [OF s9 b8]]
  from apply_layer_keeps(2) [OF o] j9 show ?thesis by simp
qed

lemma mapM_layer_inv:
  assumes "mapM (\<lambda>feat. apply_layer tr l feat) fs w = (Inr ps, w')"
  shows "list_all2 (\<lambda>f p. batch p = batch f \<and> rank p = rank f) fs ps"
  using assms
proof (induction fs arbitrary: ps w)
  case Nil
  then show ?case by (simp add: ret_eq)
next
  case (Cons f fs)
  from Cons.prems obtain p w1 qs where p: "apply_layer tr l f w = (Inr p, w1)"
    and rest: "mapM (\<lambda>feat. apply_layer tr l feat) fs w1 = (Inr qs, w')"
    and ps: "ps = p # qs"
    by (auto simp add: andThen_Inr ret_eq)
  from apply_layer_keeps(1,2) [OF p] Cons.IH [OF rest] show ?case by (simp add: ps)
qed

lemma mapM_cat_inv:
  assumes "mapM (\<lambda>(feat, feat_pert). lift (cat0 feat feat_pert)) (zip fs ps) w = (Inr cs, w')"
    and "list_all2 (\<lambda>f p. batch p = batch f \<and> rank p = rank f) fs ps"
  shows "\<forall>c\<in>set cs. \<exists>f\<in>set fs. \<exists>n. batch f = Some n \<and> batch c = Some (n + n) \<and> rank c = rank f"
  using assms(2,1)
proof (induction arbitrary: cs w rule: list_all2_induct)
  case Nil
  then show ?case by (simp add: ret_eq)
next
  case (Cons f fs p ps)
  from Cons.prems obtain c ds where c: "cat0 f p = Inr c"
    and rest: "mapM (\<lambda>(feat, feat_pert). lift (cat0 feat feat_pert)) (zip fs ps) w = (Inr ds, w')"
    and cs: "cs = c # ds"
    by (auto simp add: andThen_Inr lift_Inr ret_eq)
  from cat0_shape [OF c] Cons.hyps(1)
  have "\<exists>n. batch f = Some n \<and> batch c = Some (n + n) \<and> rank c = rank f"
    by (auto simp add: batch_def rank_def)
  with Cons.IH [OF rest] show ?case by (auto simp add: cs)
qed

lemma VNet_forward_normal_two:
  assumes e: "VNet_encoder self0 x w = (Inr features, w1)"
    and n: "VNet_forward_normal self features w1 = (Inr r, w')"
  shows "\<exists>a b. r = Tuple [a, b]"
proof -
  from VNet_forward_normal_Inr [OF n] obtain features_perturbed w2 combined outs pieces where
    p: "mapM (\<lambda>feat. apply_layer (training self) (vnet_dropout self) feat) features w1
             = (Inr features_perturbed, w2)"
    and c: "mapM (\<lambda>(feat, feat_pert). lift (cat0 feat feat_pert)) (zip features features_perturbed) w2
             = (Inr combined, w2)"
    and d: "VNet_decoder self combined True w2 = (Inr outs, w')"
    and k: "chunk2 outs = Inr pieces" and r: "r = Tuple pieces"
    by blast
  from VNet_encoder_inv [OF e] have fi: "\<forall>f\<in>set features. batch f = batch x \<and> rank f = rank x"
    by simp
  note ci = mapM_cat_inv [OF c mapM_layer_inv [OF p]]
  obtain n where all: "\<forall>c\<in>set combined. batch c = Some (n + n) \<and> rank c = rank x"
  proof (cases "batch x")
    case None
    with ci fi have "\<forall>c\<in>set combined. batch c = Some (0 + 0) \<and> rank c = rank x" by fastforce
    then show ?thesis by (rule that)
  next
    case (Some m)
    with ci fi have "\<forall>c\<in>set combined. batch c = Some (m + m) \<and> rank c = rank x" by fastforce
    then show ?thesis by (rule that)
  qed
  from VNet_decoder_batch [OF d all] have "batch outs = Some (n + n)" .
  from chunk2_batch_double [OF k this] r show ?thesis by simp
qed


lemma dims_product:
  fixes n h w :: nat
  assumes "2 \<le> n"
  shows "n * (h div 16) * (w div 16) \<noteq> 1"
  using assms by auto

section \<open>The claims\<close>


text \<open>
  C1 does not hold of the code. \<^verbatim>\<open>VNet.forward\<close> saves \<^verbatim>\<open>has_dropout\<close> and clears
  it when \<^verbatim>\<open>turnoff_drop\<close> is set, and restores it only before its last
  \<^verbatim>\<open>return\<close>; the two branches of \<^verbatim>\<open>need_fp\<close> return before that. On the model
  built by \<^verbatim>\<open>VNet(n_channels=1, n_classes=2, has_dropout=True)\<close> and a batch of two
  16 x 16 x 16 volumes, the call with \<^verbatim>\<open>turnoff_drop=True\<close>, \<^verbatim>\<open>need_fp=True\<close> and
  \<^verbatim>\<open>input_type="normal"\<close> returns its two predictions and leaves \<^verbatim>\<open>has_dropout\<close>
  false, although it was true before the call.
\<close>

theorem forward_leaves_dropout_off:
  "(case VNet 1 2 16 ''none'' True (1 / 2) ''dropout'' of
      Inl e \<Rightarrow> False
    | Inr m \<Rightarrow>
        has_dropout m \<and>
        (case VNet_forward m \<lparr>shape = [2, 1, 16, 16, 16], val = Data 0\<rparr> True True ''normal''
                \<lparr>rng = 0, calls = []\<rparr> of
           (Inl e, m', w') \<Rightarrow> False
         | (Inr r, m', w') \<Rightarrow> length (outputs r) = 2 \<and> \<not> has_dropout m'))"
proof -
  from VNet_none_constructs [of 1 2 16 True] obtain m
    where m: "VNet 1 2 16 ''none'' True (1 / 2) ''dropout'' = Inr m" ..
  have before: "has_dropout m"
    using VNet_Inr(21) [OF m] by simp
  from VNet_forward_normal_ok [OF m, of "\<lparr>shape = [2, 1, 16, 16, 16], val = Data 0\<rparr>" 2 16 16 16
      True "\<lparr>rng = 0, calls = []\<rparr>"]
  obtain r m' w' where
    run: "VNet_forward m \<lparr>shape = [2, 1, 16, 16, 16], val = Data 0\<rparr> True True ''normal''
            \<lparr>rng = 0, calls = []\<rparr> = (Inr r, m', w')"
    and m': "m' = m\<lparr>has_dropout := False\<rparr>"
    and r: "map shape (outputs r) = [[2, 2, 16, 16, 16], [2, 2, 16, 16, 16]]"
    by (auto simp add: norm_ok_def)
  from r have "length (map shape (outputs r)) = 2" by simp
  then have "length (outputs r) = 2" by simp
  with m before run m' show ?thesis by simp
qed







text \<open>
  C4, as amended. In the "strong" mode the two corruptions are applied to the two
  halves of the batch, not to two copies of one feature map. For every level \<open>i\<close> of the
  encoder output \<open>feature\<close>, \<open>features1[i]\<close> is the first chunk and \<open>features2[i]\<close> the
  second chunk of \<open>feature[i]\<close> along the batch dimension; one random mask is drawn per
  level; \<open>weak[i]\<close> is the first chunk times the mask, \<open>strong[i]\<close> is the second chunk
  times the complement of the same mask, and \<open>complete[i]\<close> is their sum.
\<close>

theorem strong_mode_operands:
  "split_halves feature w = (Inr (features1, features2), w1) \<longrightarrow>
   perturb p_keep features1 features2 w1 = (Inr (weak_features, strong_features, complete_features), w2) \<longrightarrow>
     length features1 = length feature \<and> length features2 = length feature \<and>
     length weak_features = length feature \<and> length strong_features = length feature \<and>
     length complete_features = length feature \<and>
     (\<forall>i<length feature.
        val (features1 ! i) = Chunk 0 (val (feature ! i)) \<and>
        val (features2 ! i) = Chunk 1 (val (feature ! i)) \<and>
        val (weak_features ! i) = Mul (Chunk 0 (val (feature ! i))) (RandMask (rng w + i) p_keep) \<and>
        val (strong_features ! i) =
          Mul (Chunk 1 (val (feature ! i))) (OneMinus (RandMask (rng w + i) p_keep)) \<and>
        val (complete_features ! i) = Add (val (weak_features ! i)) (val (strong_features ! i)))"
proof (intro impI)
  assume s: "split_halves feature w = (Inr (features1, features2), w1)"
    and p: "perturb p_keep features1 features2 w1 = (Inr (weak_features, strong_features, complete_features), w2)"
  from split_halves_vals [OF s] have w1: "w1 = w"
    and v1: "map val features1 = map (\<lambda>x. Chunk 0 (val x)) feature"
    and v2: "map val features2 = map (\<lambda>x. Chunk 1 (val x)) feature"
    by simp_all
  from v1 have l1: "length features1 = length feature" by (rule map_eq_imp_length_eq)
  from v2 have l2: "length features2 = length feature" by (rule map_eq_imp_length_eq)
  from l1 l2 have "length features1 = length features2" by simp
  note pv = perturb_vals [OF p this, unfolded w1 l1]
  show "length features1 = length feature \<and> length features2 = length feature \<and>
     length weak_features = length feature \<and> length strong_features = length feature \<and>
     length complete_features = length feature \<and>
     (\<forall>i<length feature.
        val (features1 ! i) = Chunk 0 (val (feature ! i)) \<and>
        val (features2 ! i) = Chunk 1 (val (feature ! i)) \<and>
        val (weak_features ! i) = Mul (Chunk 0 (val (feature ! i))) (RandMask (rng w + i) p_keep) \<and>
        val (strong_features ! i) =
          Mul (Chunk 1 (val (feature ! i))) (OneMinus (RandMask (rng w + i) p_keep)) \<and>
        val (complete_features ! i) = Add (val (weak_features ! i)) (val (strong_features ! i)))"
  proof (intro conjI allI impI)
    fix i assume i: "i < length feature"
    show f1: "val (features1 ! i) = Chunk 0 (val (feature ! i))"
      using v1 i by (rule map_val_nth)
    show f2: "val (features2 ! i) = Chunk 1 (val (feature ! i))"
      using v2 i by (rule map_val_nth)
    show "val (weak_features ! i) = Mul (Chunk 0 (val (feature ! i))) (RandMask (rng w + i) p_keep)"
      using pv i f1 by simp
    show "val (strong_features ! i) =
          Mul (Chunk 1 (val (feature ! i))) (OneMinus (RandMask (rng w + i) p_keep))"
      using pv i f2 by simp
    show "val (complete_features ! i) = Add (val (weak_features ! i)) (val (strong_features ! i))"
      using pv i by simp
  qed (use pv l1 l2 in simp_all)
qed

text \<open>
  The theorem on one feature map of batch size two: the loops return, and the weak
  and the strong feature are built from chunk 0 and chunk 1.
\<close>

theorem strong_mode_operands_witness:
  "(\<exists>features1 features2 w1 weak_features strong_features complete_features w2.
      split_halves [\<lparr>shape = [2, 16, 4, 4], val = Data 0\<rparr>] \<lparr>rng = 0, calls = []\<rparr>
        = (Inr (features1, features2), w1) \<and>
      perturb 0.7 features1 features2 w1 = (Inr (weak_features, strong_features, complete_features), w2) \<and>
      val (weak_features ! 0) = Mul (Chunk 0 (Data 0)) (RandMask 0 0.7) \<and>
      val (strong_features ! 0) = Mul (Chunk 1 (Data 0)) (OneMinus (RandMask 0 0.7)) \<and>
      val (complete_features ! 0) = Add (val (weak_features ! 0)) (val (strong_features ! 0)))"
proof -
  let ?x = "\<lparr>shape = [2, 16, 4, 4], val = Data 0\<rparr>" and ?w = "\<lparr>rng = 0, calls = []\<rparr>"
  let ?f1 = "\<lparr>shape = [1, 16, 4, 4], val = Chunk 0 (Data 0)\<rparr>"
  let ?f2 = "\<lparr>shape = [1, 16, 4, 4], val = Chunk 1 (Data 0)\<rparr>"
  have s: "split_halves [?x] ?w = (Inr ([?f1], [?f2]), ?w)"
    by (simp add: andThen_def lift_def ret_def chunk2_def Let_def)
  from perturb_shapes [of "[?f1]" "[?f2]" "0.7" ?w]
  obtain weak_features strong_features complete_features w2 where
    p: "perturb 0.7 [?f1] [?f2] ?w = (Inr (weak_features, strong_features, complete_features), w2)"
    by (auto simp add: returns_iff)
  from strong_mode_operands [where feature = "[?x]" and w = ?w and ?features1.0 = "[?f1]"
      and ?features2.0 = "[?f2]" and ?w1.0 = ?w and p_keep = "0.7" and weak_features = weak_features
      and strong_features = strong_features and complete_features = complete_features and ?w2.0 = w2] s p
  have "val (weak_features ! 0) = Mul (Chunk 0 (Data 0)) (RandMask 0 0.7) \<and>
      val (strong_features ! 0) = Mul (Chunk 1 (Data 0)) (OneMinus (RandMask 0 0.7)) \<and>
      val (complete_features ! 0) = Add (val (weak_features ! 0)) (val (strong_features ! 0))"
    by simp
  with s p show ?thesis by blast
qed

text \<open>
  C4 as stated fails: on a feature map of batch size two the weak corruption is applied
  to chunk 0 and the strong corruption to chunk 1, which are different tensors (the
  first and the second sample of the batch).
\<close>

theorem strong_mode_operands_counterexample:
  "split_halves [\<lparr>shape = [2, 16, 4, 4], val = Data 0\<rparr>] \<lparr>rng = 0, calls = []\<rparr> =
     (Inr ([\<lparr>shape = [1, 16, 4, 4], val = Chunk 0 (Data 0)\<rparr>],
           [\<lparr>shape = [1, 16, 4, 4], val = Chunk 1 (Data 0)\<rparr>]), \<lparr>rng = 0, calls = []\<rparr>) \<and>
   perturb 0.7 [\<lparr>shape = [1, 16, 4, 4], val = Chunk 0 (Data 0)\<rparr>]
       [\<lparr>shape = [1, 16, 4, 4], val = Chunk 1 (Data 0)\<rparr>] \<lparr>rng = 0, calls = []\<rparr> =
     (Inr ([\<lparr>shape = [1, 16, 4, 4], val = Mul (Chunk 0 (Data 0)) (RandMask 0 0.7)\<rparr>],
           [\<lparr>shape = [1, 16, 4, 4],
             val = Mul (Chunk 1 (Data 0)) (OneMinus (RandMask 0 0.7))\<rparr>],
           [\<lparr>shape = [1, 16, 4, 4],
             val = Add (Mul (Chunk 0 (Data 0)) (RandMask 0 0.7))
                       (Mul (Chunk 1 (Data 0)) (OneMinus (RandMask 0 0.7)))\<rparr>]),
      \<lparr>rng = 1, calls = []\<rparr>) \<and>
   Chunk 0 (Data 0) \<noteq> Chunk 1 (Data 0)"
  by (simp add: andThen_def lift_def ret_def chunk2_def Let_def rand_mask_def fresh_def
        mul_def add_def one_minus_def broadcast_def)

text \<open>
  C5, as amended. Constructing an \<^verbatim>\<open>Encoder\<close> or a \<^verbatim>\<open>Decoder\<close> raises
  \<^verbatim>\<open>AssertionError\<close> exactly when \<^verbatim>\<open>feature_chns\<close> does not have five
  entries. Constructing a V-Net \<^verbatim>\<open>ConvBlock\<close> raises \<^verbatim>\<open>AssertionError\<close> exactly
  when it has at least one stage and \<^verbatim>\<open>normalization\<close> is none of "none",
  "batchnorm", "groupnorm", "instancenorm": the check stands inside the loop over the
  stages.
\<close>

theorem construction_assertions:
  "(Encoder ps = Inl AssertionError \<longleftrightarrow> length (feature_chns ps) \<noteq> 5) \<and>
   (Decoder ps = Inl AssertionError \<longleftrightarrow> length (feature_chns ps) \<noteq> 5) \<and>
   (vnet_ConvBlock name n_stages n_filters_in n_filters_out normalization = Inl AssertionError \<longleftrightarrow>
      0 < n_stages \<and>
      normalization \<notin> {''none'', ''batchnorm'', ''groupnorm'', ''instancenorm''})"
  by (simp add: Encoder_assert_iff Decoder_assert_iff vnet_ConvBlock_def
        ConvBlock_loop_assert_iff)

text \<open>
  C5 as stated fails: with no stage, a \<^verbatim>\<open>ConvBlock\<close> whose normalisation is not one of
  the four names is constructed without any assertion (and applies no layer).
\<close>

theorem ConvBlock_no_stage_counterexample:
  "''layernorm'' \<notin> {''none'', ''batchnorm'', ''groupnorm'', ''instancenorm''} \<and>
   vnet_ConvBlock ''block'' 0 1 16 ''layernorm'' = Inr []"
  by (simp add: vnet_ConvBlock_def)













text \<open>
  C10. No path of \<open>forward\<close> reads the perturbation module: replacing it by any other
  module \<open>q\<close> changes neither the result nor the world of a U-Net forward call, and of a
  V-Net forward call it changes only the \<open>pert\<close> field of the model that is returned.
\<close>

theorem forward_ignores_pert:
  "UNet_forward (self\<lparr>unet_pert := q\<rparr>) x need_fp input_type w
     = UNet_forward self x need_fp input_type w \<and>
   VNet_forward (vself\<lparr>pert := q'\<rparr>) x' turnoff_drop need_fp' input_type' w'
     = (case VNet_forward vself x' turnoff_drop need_fp' input_type' w' of
          (r, vself', w'') \<Rightarrow> (r, vself'\<lparr>pert := q'\<rparr>, w''))"
proof
  show "UNet_forward (self\<lparr>unet_pert := q\<rparr>) x need_fp input_type w
     = UNet_forward self x need_fp input_type w"
    by (simp add: UNet_forward_def UNet_forward_normal_def UNet_forward_strong_def cong: if_cong)
next
  have a: "(vself\<lparr>pert := q'\<rparr>)\<lparr>has_dropout := False\<rparr> = (vself\<lparr>has_dropout := False\<rparr>)\<lparr>pert := q'\<rparr>"
    by simp
  show "VNet_forward (vself\<lparr>pert := q'\<rparr>) x' turnoff_drop need_fp' input_type' w'
     = (case VNet_forward vself x' turnoff_drop need_fp' input_type' w' of
          (r, vself', w'') \<Rightarrow> (r, vself'\<lparr>pert := q'\<rparr>, w''))"
    unfolding VNet_forward_def Let_def
    by (cases turnoff_drop)
       (simp_all add: a VNet_encoder_pert VNet_decoder_pert VNet_forward_normal_pert
          VNet_forward_strong_pert split: prod.splits sum.splits del: vnet.update_convs)
qed

end
